theory Spec2Isabelle
  imports Main "HOL-Library.Sublist"
begin

section \<open>Go strings and library functions used by \<open>endtoend/beacon_node.go\<close>\<close>

text \<open>
  A Go string is a sequence of bytes, here a \<open>string\<close> (a list of 8-bit characters).
  Go's \<open>error\<close> values are modelled by the datatype \<open>error\<close>; a nil error is
  \<open>None\<close> of \<open>error option\<close>, and a pair \<open>(value, error)\<close> is a sum with
  \<open>Inl\<close> for the error.
\<close>

datatype error =
    OsError string          \<comment> \<open>an error reported by the operating system, with its message\<close>
  | ErrTooLong              \<comment> \<open>\<open>bufio.ErrTooLong\<close>\<close>
  | Wrap error string       \<comment> \<open>\<open>errors.Wrap(err, msg)\<close>\<close>
  | Errorf string           \<comment> \<open>\<open>fmt.Errorf\<close>, with the formatted message\<close>

fun error_message :: "error \<Rightarrow> string" where
  "error_message (OsError m) = m"
| "error_message ErrTooLong = ''bufio.Scanner: token too long''"
| "error_message (Wrap e m) = m @ '': '' @ error_message e"
| "error_message (Errorf m) = m"

definition dquote :: char where
  "dquote = CHR 0x22"

definition newline :: char where
  "newline = CHR 0x0A"

definition carriage_return :: char where
  "carriage_return = CHR 0x0D"

text \<open>\<open>strings.Index(s, substr)\<close>: the index of the first instance of \<open>substr\<close> in \<open>s\<close>,
  or \<open>-1\<close> if \<open>substr\<close> is not present in \<open>s\<close>.\<close>

fun strings_Index :: "string \<Rightarrow> string \<Rightarrow> int" where
  "strings_Index [] substr = (if substr = [] then 0 else - 1)"
| "strings_Index (c # s) substr =
     (if prefix substr (c # s) then 0
      else (let i = strings_Index s substr in if i = - 1 then - 1 else i + 1))"

text \<open>\<open>strings.Contains(s, substr)\<close> is \<open>Index(s, substr) >= 0\<close>.\<close>

definition strings_Contains :: "string \<Rightarrow> string \<Rightarrow> bool" where
  "strings_Contains s substr = (strings_Index s substr \<ge> 0)"

text \<open>\<open>strings.Join(elems, sep)\<close>.\<close>

fun strings_Join :: "string list \<Rightarrow> string \<Rightarrow> string" where
  "strings_Join [] sep = []"
| "strings_Join [a] sep = a"
| "strings_Join (a # b # rest) sep = a @ sep @ strings_Join (b # rest) sep"

text \<open>The verb \<open>%d\<close> of \<open>fmt.Sprintf\<close> on a non-negative integer: its decimal digits.\<close>

definition digit :: "nat \<Rightarrow> char" where
  "digit d = ''0123456789'' ! d"

fun decimal :: "nat \<Rightarrow> string" where
  "decimal n = (if n < 10 then [digit n] else decimal (n div 10) @ [digit (n mod 10)])"

declare decimal.simps [simp del]

subsection \<open>\<open>bufio.Scanner\<close> with the default split function \<open>ScanLines\<close>\<close>

text \<open>
  \<open>dropCR\<close> drops one terminal carriage return from a line. The scanner yields the text
  before each newline, and the text after the last newline when it is not empty. A line
  that does not fit the buffer of \<open>MaxScanTokenSize\<close> bytes together with its
  terminator stops the scan with \<open>ErrTooLong\<close>. A read error ends the input like the end
  of the file and is what \<open>scanner.Err()\<close> reports afterwards.
\<close>

definition dropCR :: "string \<Rightarrow> string" where
  "dropCR data = (if data \<noteq> [] \<and> last data = carriage_return then butlast data else data)"

definition MaxScanTokenSize :: nat where
  "MaxScanTokenSize = 64 * 1024"

function scan_lines :: "string \<Rightarrow> string list \<times> error option" where
  "scan_lines data =
     (if data = [] then ([], None)
      else let line = takeWhile (\<lambda>c. c \<noteq> newline) data;
               rest = dropWhile (\<lambda>c. c \<noteq> newline) data
           in if length line \<ge> MaxScanTokenSize then ([], Some ErrTooLong)
              else (case scan_lines (drop 1 rest) of
                      (tokens, err) \<Rightarrow> (dropCR line # tokens, err)))"
  by pat_completeness auto
termination
proof (relation "measure length")
  show "wf (measure length)" by simp
next
  fix data :: string and line rest
  assume "data \<noteq> []" and "rest = dropWhile (\<lambda>c. c \<noteq> newline) data"
  then show "(drop 1 rest, data) \<in> measure length"
    using length_dropWhile_le [of "\<lambda>c. c \<noteq> newline" data]
    by (cases "dropWhile (\<lambda>c. c \<noteq> newline) data") auto
qed

declare scan_lines.simps [simp del]

text \<open>The tokens a scanner over \<open>content\<close> yields, and the value of \<open>scanner.Err()\<close> once
  \<open>Scan\<close> has returned false; \<open>rerr\<close> is the read error that ended the input, if any.\<close>

definition scanner :: "string \<Rightarrow> error option \<Rightarrow> string list \<times> error option" where
  "scanner content rerr =
     (case scan_lines content of
        (tokens, Some e) \<Rightarrow> (tokens, Some e)
      | (tokens, None) \<Rightarrow> (tokens, rerr))"

section \<open>\<open>waitForTextInFile\<close>\<close>

text \<open>
  The log file is written by the child process, so what the harness reads from it is
  given by the environment: \<open>poll_at f t\<close> is what rewinding and scanning the file
  \<open>t\<close> seconds of sleep after the call observes, and \<open>read_file f\<close> is the result of
  \<open>ioutil.ReadFile(file.Name())\<close> once the loop is left.
\<close>

datatype poll =
    SeekFailed error                      \<comment> \<open>\<open>file.Seek(0, io.SeekStart)\<close> returned an error\<close>
  | FileData string "error option"        \<comment> \<open>the bytes read, and the read error after them\<close>

record log_file =
  poll_at :: "nat \<Rightarrow> poll"
  read_file :: "error + string"

definition maxWait :: nat where
  "maxWait = 36"

text \<open>The inner loop \<open>for scanner.Scan() { if strings.Contains(scanner.Text(), text) ... }\<close>.\<close>

definition scan_finds :: "string list \<Rightarrow> string \<Rightarrow> bool" where
  "scan_finds tokens text = list_ex (\<lambda>line. strings_Contains line text) tokens"

text \<open>
  The loop of \<open>waitForTextInFile\<close>, from a value of \<open>wait\<close> and a clock that counts the
  seconds slept so far. The result is the returned error and the clock at the return.
\<close>

function wait_loop :: "log_file \<Rightarrow> string \<Rightarrow> nat \<Rightarrow> nat \<Rightarrow> error option \<times> nat" where
  "wait_loop file text wait clock =
     (if wait < maxWait then
        (let clock' = clock + 2 in
         case poll_at file clock' of
           SeekFailed err \<Rightarrow> (Some (Wrap err ''could not rewind file to start''), clock')
         | FileData content rerr \<Rightarrow>
             (case scanner content rerr of
                (tokens, serr) \<Rightarrow>
                  if scan_finds tokens text then (None, clock')
                  else (case serr of
                          Some err \<Rightarrow> (Some err, clock')
                        | None \<Rightarrow> wait_loop file text (wait + 2) clock')))
      else
        (case read_file file of
           Inl err \<Rightarrow> (Some err, clock)
         | Inr contents \<Rightarrow>
             (Some (Errorf (''could not find requested text '' @ [dquote] @ text @ [dquote]
                            @ '' in logs:'' @ [newline] @ contents)), clock)))"
  by pat_completeness auto
termination
  by (relation "measure (\<lambda>(file, text, wait, clock). maxWait - wait)") (auto simp: maxWait_def)

declare wait_loop.simps [simp del]

definition waitForTextInFile :: "log_file \<Rightarrow> string \<Rightarrow> error option \<times> nat" where
  "waitForTextInFile file text = wait_loop file text 0 0"

text \<open>What one poll of the loop does with the text, seen from outside.\<close>

definition poll_hit :: "poll \<Rightarrow> string \<Rightarrow> bool" where
  "poll_hit p text =
     (case p of
        SeekFailed err \<Rightarrow> False
      | FileData content rerr \<Rightarrow> scan_finds (fst (scanner content rerr)) text)"

definition poll_miss :: "poll \<Rightarrow> string \<Rightarrow> bool" where
  "poll_miss p text =
     (case p of
        SeekFailed err \<Rightarrow> False
      | FileData content rerr \<Rightarrow>
          \<not> scan_finds (fst (scanner content rerr)) text \<and> snd (scanner content rerr) = None)"

text \<open>A poll whose re-read of the log succeeds, and the content it reads.\<close>

definition poll_ok :: "poll \<Rightarrow> bool" where
  "poll_ok p =
     (case p of
        SeekFailed err \<Rightarrow> False
      | FileData content rerr \<Rightarrow> snd (scanner content rerr) = None)"

fun poll_content :: "poll \<Rightarrow> string" where
  "poll_content (SeekFailed err) = []"
| "poll_content (FileData content rerr) = content"

text \<open>The error \<open>waitForTextInFile\<close> returns once the loop is left without a match.\<close>

definition timeout_error :: "log_file \<Rightarrow> string \<Rightarrow> error" where
  "timeout_error file text =
     (case read_file file of
        Inl err \<Rightarrow> err
      | Inr contents \<Rightarrow>
          Errorf (''could not find requested text '' @ [dquote] @ text @ [dquote]
                  @ '' in logs:'' @ [newline] @ contents))"

subsection \<open>Example log files\<close>

text \<open>The line a beacon node writes once its p2p server runs, with the address \<open>addr\<close>.\<close>

definition started_line :: "string \<Rightarrow> string" where
  "started_line addr =
     ''level=info msg='' @ [dquote] @ ''Node started p2p server'' @ [dquote]
     @ '' multiAddr='' @ [dquote] @ addr @ [dquote] @ '' prefix=p2p'' @ [newline]"

text \<open>A log that holds one line for the first four seconds and the line of the started
  p2p server from the third poll on.\<close>

definition slow_start_log :: log_file where
  "slow_start_log =
     \<lparr> poll_at = (\<lambda>t. if t < 6 then FileData (''level=info msg=starting'' @ [newline]) None
                       else FileData (''level=info msg=starting'' @ [newline]
                                      @ started_line ''/ip4/127.0.0.1/tcp/13000'') None),
       read_file = Inr (''level=info msg=starting'' @ [newline]
                        @ started_line ''/ip4/127.0.0.1/tcp/13000'') \<rparr>"

text \<open>A log that never gets further than its first line.\<close>

definition stuck_log :: log_file where
  "stuck_log =
     \<lparr> poll_at = (\<lambda>t. FileData (''level=info msg=starting'' @ [newline]) None),
       read_file = Inr (''level=info msg=starting'' @ [newline]) \<rparr>"

text \<open>A log that never gets further than its first line and cannot be read any more
  when the wait is over.\<close>

definition unreadable_log :: log_file where
  "unreadable_log =
     \<lparr> poll_at = (\<lambda>t. FileData (''level=info msg=starting'' @ [newline]) None),
       read_file = Inl (OsError ''open /tmp/e2e/beacon-0.log: no such file or directory'') \<rparr>"

text \<open>A log with constant content \<open>c\<close>, read without errors.\<close>

definition constant_log :: "string \<Rightarrow> log_file" where
  "constant_log c = \<lparr> poll_at = (\<lambda>t. FileData c None), read_file = Inr c \<rparr>"

section \<open>\<open>getMultiAddrFromLogFile\<close>\<close>

text \<open>The slice expression \<open>s[lo:hi]\<close> of Go, for \<open>lo \<le> hi \<le> len(s)\<close>.\<close>

definition slice :: "string \<Rightarrow> nat \<Rightarrow> nat \<Rightarrow> string" where
  "slice s lo hi = take (hi - lo) (drop lo s)"

definition searchText :: string where
  "searchText = [dquote] @ ''Node started p2p server'' @ [dquote] @ '' multiAddr='' @ [dquote]"

text \<open>
  The argument is the result of \<open>ioutil.ReadFile(name)\<close>, the content of the log when
  the function is called or the error of the read. Both indices the function slices with
  lie within \<open>contents\<close>, so no slice expression panics.
\<close>

definition getMultiAddrFromLogFile :: "error + string \<Rightarrow> error + string" where
  "getMultiAddrFromLogFile readFile =
     (case readFile of
        Inl err \<Rightarrow> Inl err
      | Inr contents \<Rightarrow>
          (let startIdx = strings_Index contents searchText in
           if startIdx = - 1 then Inl (Errorf (''did not find peer text in '' @ contents))
           else
             (let startIdx = startIdx + int (length searchText);
                  endIdx = strings_Index (drop (nat startIdx) contents) [dquote]
              in if endIdx = - 1 then Inl (Errorf (''did not find peer text in '' @ contents))
                 else Inr (slice contents (nat startIdx) (nat (startIdx + endIdx))))))"

section \<open>\<open>startNewBeaconNode\<close> and \<open>startBeaconNodes\<close>\<close>

text \<open>
  The fields of type \<open>uint64\<close> and the index hold natural numbers: an index is the length
  of a slice, far below the values at which \<open>4000 + index\<close> would wrap around. Of
  \<open>end2EndConfig\<close>, \<open>contractAddr\<close> stands for the string \<open>contractAddr.Hex()\<close>, the only
  use the harness makes of it; the field \<open>evaluators\<close>, of a type of another package, is
  not read by the functions here and is left out.
\<close>

record beaconNodeInfo =
  processID :: int
  datadir :: string
  rpcPort :: nat
  monitorPort :: nat
  grpcPort :: nat
  multiAddr :: string

record end2EndConfig =
  minimalConfig :: bool
  tmpPath :: string
  epochsToRun :: nat
  numValidators :: nat
  numBeaconNodes :: nat
  enableSSZCache :: bool
  contractAddr :: string

text \<open>
  What the operating system and the child process answer when node \<open>index\<close> is started:
  the result of \<open>bazel.FindBinary\<close>, the error of \<open>os.Create\<close> for the log file, the
  result of \<open>cmd.Start()\<close> (an error, or the pid of the new process), what is read from the
  log file while waiting, and the result of \<open>ioutil.ReadFile\<close> in
  \<open>getMultiAddrFromLogFile\<close>.
\<close>

record node_env =
  findBinary :: "string \<times> bool"
  createFile :: "error option"
  startProcess :: "error + int"
  stdOutFile :: log_file
  logFileRead :: "error + string"

type_synonym world = "nat \<Rightarrow> node_env"

text \<open>What the harness does to the outside: the lines it logs with \<open>t.Log\<close> and \<open>t.Logf\<close>,
  and the commands it hands to \<open>cmd.Start()\<close>, each a binary and its arguments.\<close>

record harness =
  testLog :: "string list"
  commands :: "(string \<times> string list) list"

text \<open>The loop \<open>for p := 0; p < index; p++\<close> that appends one \<open>--peer\<close> flag per node.\<close>

function add_peers :: "beaconNodeInfo list \<Rightarrow> nat \<Rightarrow> nat \<Rightarrow> string list \<Rightarrow> string list" where
  "add_peers beaconNodes index p args =
     (if p < index
      then add_peers beaconNodes index (p + 1)
             (args @ [''--peer='' @ multiAddr (beaconNodes ! p)])
      else args)"
  by pat_completeness auto
termination
  by (relation "measure (\<lambda>(beaconNodes, index, p, args). index - p)") auto

declare add_peers.simps [simp del]

text \<open>The composite literal \<open>args := []string{...}\<close> of \<open>startNewBeaconNode\<close>.\<close>

definition initial_args :: "end2EndConfig \<Rightarrow> nat \<Rightarrow> string list" where
  "initial_args config index =
     [''--no-genesis-delay'',
      ''--verbosity=debug'',
      ''--force-clear-db'',
      ''--no-discovery'',
      ''--new-cache'',
      ''--enable-shuffled-index-cache'',
      ''--enable-skip-slots-cache'',
      ''--enable-attestation-cache'',
      ''--http-web3provider=http://127.0.0.1:8545'',
      ''--web3provider=ws://127.0.0.1:8546'',
      ''--datadir='' @ tmpPath config @ ''/eth2-beacon-node-'' @ decimal index,
      ''--deposit-contract='' @ contractAddr config,
      ''--rpc-port='' @ decimal (4000 + index),
      ''--p2p-udp-port='' @ decimal (12000 + index),
      ''--p2p-tcp-port='' @ decimal (13000 + index),
      ''--monitoring-port='' @ decimal (8080 + index),
      ''--grpc-gateway-port='' @ decimal (3200 + index),
      ''--contract-deployment-block='' @ decimal 0]"

text \<open>The slice \<open>args\<close> of \<open>startNewBeaconNode\<close> when the command is built.\<close>

definition node_args :: "end2EndConfig \<Rightarrow> beaconNodeInfo list \<Rightarrow> string list" where
  "node_args config beaconNodes =
     (let index = length beaconNodes;
          args = initial_args config index;
          args = (if minimalConfig config then args @ [''--minimal-config''] else args);
          args = (if enableSSZCache config then args @ [''--enable-ssz-cache''] else args);
          args = (if index \<ge> 1 then add_peers beaconNodes index 0 args else args)
      in args)"

text \<open>
  \<open>startNewBeaconNode\<close>, on the harness state \<open>h\<close>. A call of \<open>t.Fatal\<close> or \<open>t.Fatalf\<close> ends
  the test: the result is then \<open>Inl\<close> of the message. The environment of the node is the
  one of its index, as the log file is named after the index.
\<close>

definition startNewBeaconNode ::
  "world \<Rightarrow> end2EndConfig \<Rightarrow> beaconNodeInfo list \<Rightarrow> harness \<Rightarrow> harness \<times> (string + beaconNodeInfo)" where
  "startNewBeaconNode w config beaconNodes h =
     (let index = length beaconNodes;
          env = w index;
          binaryPath = fst (findBinary env);
          found = snd (findBinary env)
      in if \<not> found
         then (h\<lparr>testLog := testLog h @ [binaryPath]\<rparr>, Inl ''beacon chain binary not found'')
         else
           (case createFile env of
              Some err \<Rightarrow> (h, Inl (error_message err))
            | None \<Rightarrow>
                (let args = node_args config beaconNodes;
                     h = h\<lparr>testLog := testLog h
                            @ [''Starting beacon chain with flags: '' @ strings_Join args '' '']\<rparr>;
                     h = h\<lparr>commands := commands h @ [(binaryPath, args)]\<rparr>
                 in case startProcess env of
                      Inl err \<Rightarrow>
                        (h, Inl (''Failed to start beacon node: '' @ error_message err))
                    | Inr pid \<Rightarrow>
                        (case fst (waitForTextInFile (stdOutFile env) ''Node started p2p server'') of
                           Some err \<Rightarrow>
                             (h, Inl (''could not find multiaddr for node '' @ decimal index
                                      @ '', this means the node had issues starting: ''
                                      @ error_message err))
                         | None \<Rightarrow>
                             (case getMultiAddrFromLogFile (logFileRead env) of
                                Inl err \<Rightarrow>
                                  (h, Inl (''could not get multiaddr for node '' @ decimal index
                                           @ '': '' @ error_message err))
                              | Inr addr \<Rightarrow>
                                  (h, Inr \<lparr> processID = pid,
                                            datadir = tmpPath config @ ''/eth2-beacon-node-''
                                                      @ decimal index,
                                            rpcPort = 4000 + index,
                                            monitorPort = 8080 + index,
                                            grpcPort = 3200 + index,
                                            multiAddr = addr \<rparr>))))))"

text \<open>
  The loop of \<open>startBeaconNodes\<close>. The result is the harness state, the slice \<open>nodeInfo\<close>
  when the loop is left, and the message of \<open>t.Fatal\<close> when the test was ended by it;
  the function returns \<open>nodeInfo\<close> to its caller when there is no such message.
\<close>

function start_loop ::
  "world \<Rightarrow> end2EndConfig \<Rightarrow> nat \<Rightarrow> nat \<Rightarrow> beaconNodeInfo list \<Rightarrow> harness
   \<Rightarrow> harness \<times> beaconNodeInfo list \<times> string option" where
  "start_loop w config numNodes i nodeInfo h =
     (if i < numNodes then
        (case startNewBeaconNode w config nodeInfo h of
           (h', Inl fatal) \<Rightarrow> (h', nodeInfo, Some fatal)
         | (h', Inr newNode) \<Rightarrow> start_loop w config numNodes (i + 1) (nodeInfo @ [newNode]) h')
      else (h, nodeInfo, None))"
  by pat_completeness auto
termination
  by (relation "measure (\<lambda>(w, config, numNodes, i, nodeInfo, h). numNodes - i)") auto

declare start_loop.simps [simp del]

definition startBeaconNodes ::
  "world \<Rightarrow> end2EndConfig \<Rightarrow> harness \<times> beaconNodeInfo list \<times> string option" where
  "startBeaconNodes w config =
     start_loop w config (numBeaconNodes config) 0 [] \<lparr>testLog = [], commands = []\<rparr>"

subsection \<open>Notions the statements about a run use\<close>

text \<open>Every step of starting a node succeeds in the environment \<open>env\<close>.\<close>

definition node_ok :: "node_env \<Rightarrow> bool" where
  "node_ok env \<longleftrightarrow>
     snd (findBinary env) \<and> createFile env = None \<and> \<not> isl (startProcess env)
     \<and> fst (waitForTextInFile (stdOutFile env) ''Node started p2p server'') = None
     \<and> \<not> isl (getMultiAddrFromLogFile (logFileRead env))"

text \<open>The record of node \<open>index\<close> when every step succeeds.\<close>

definition node_record :: "end2EndConfig \<Rightarrow> node_env \<Rightarrow> nat \<Rightarrow> beaconNodeInfo" where
  "node_record config env index =
     \<lparr> processID = projr (startProcess env),
       datadir = tmpPath config @ ''/eth2-beacon-node-'' @ decimal index,
       rpcPort = 4000 + index,
       monitorPort = 8080 + index,
       grpcPort = 3200 + index,
       multiAddr = projr (getMultiAddrFromLogFile (logFileRead env)) \<rparr>"

definition registry_upto :: "world \<Rightarrow> end2EndConfig \<Rightarrow> nat \<Rightarrow> beaconNodeInfo list" where
  "registry_upto w config k = map (\<lambda>j. node_record config (w j) j) [0..<k]"

text \<open>The value an argument list gives to a flag: the text after the flag's name in the
  first argument that starts with it.\<close>

definition flag_value :: "string \<Rightarrow> string list \<Rightarrow> string option" where
  "flag_value name args =
     (case filter (prefix name) args of
        [] \<Rightarrow> None
      | a # rest \<Rightarrow> Some (drop (length name) a))"

text \<open>The values of the five port flags in an argument list.\<close>

definition port_values :: "string list \<Rightarrow> string option list" where
  "port_values args =
     map (\<lambda>name. flag_value name args)
       [''--rpc-port='', ''--p2p-udp-port='', ''--p2p-tcp-port='',
        ''--monitoring-port='', ''--grpc-gateway-port='']"

text \<open>The five port numbers of node \<open>index\<close>, in the order of the flags.\<close>

definition node_ports :: "nat \<Rightarrow> nat list" where
  "node_ports index = [4000 + index, 12000 + index, 13000 + index, 8080 + index, 3200 + index]"

text \<open>The state of the loop of \<open>startBeaconNodes\<close> before node \<open>i\<close> is started.\<close>

definition loop_inv :: "world \<Rightarrow> end2EndConfig \<Rightarrow> nat \<Rightarrow> beaconNodeInfo list \<Rightarrow> harness \<Rightarrow> bool" where
  "loop_inv w config i ns h \<longleftrightarrow>
     ns = registry_upto w config i \<and> (\<forall>j<i. node_ok (w j)) \<and> length (commands h) = i
     \<and> (\<forall>j<i. snd (commands h ! j) = node_args config (registry_upto w config j))"

text \<open>What a run that stops at node \<open>k\<close> leaves behind.\<close>

definition run_outcome ::
  "world \<Rightarrow> end2EndConfig \<Rightarrow> nat \<Rightarrow> nat \<Rightarrow> harness \<times> beaconNodeInfo list \<times> string option \<Rightarrow> bool" where
  "run_outcome w config N k r \<longleftrightarrow>
     k \<le> N \<and> fst (snd r) = registry_upto w config k \<and> (\<forall>j<k. node_ok (w j))
     \<and> (snd (snd r) = None \<longrightarrow> k = N \<and> length (commands (fst r)) = N)
     \<and> (snd (snd r) \<noteq> None \<longrightarrow>
          k < N \<and> \<not> node_ok (w k) \<and> k \<le> length (commands (fst r))
          \<and> length (commands (fst r)) \<le> k + 1
          \<and> length (commands (fst r))
              = (if snd (findBinary (w k)) \<and> createFile (w k) = None then k + 1 else k))
     \<and> (\<forall>j<length (commands (fst r)).
          snd (commands (fst r) ! j) = node_args config (registry_upto w config j))"

subsection \<open>Example runs\<close>

text \<open>A node that starts and has written the line of its p2p server, with the address
  \<open>addr\<close>, when the log is first read.\<close>

definition ready_env :: "string \<Rightarrow> node_env" where
  "ready_env addr =
     \<lparr> findBinary = (''bazel-bin/beacon-chain/beacon-chain'', True),
       createFile = None,
       startProcess = Inr 4242,
       stdOutFile = constant_log (started_line addr),
       logFileRead = Inr (started_line addr) \<rparr>"

text \<open>A world in which every node starts at once.\<close>

definition local_world :: world where
  "local_world i =
     ready_env (if i = 0 then ''/ip4/127.0.0.1/tcp/13000''
                else if i = 1 then ''/ip4/127.0.0.1/tcp/13001''
                else ''/ip4/127.0.0.1/tcp/13002'')"

text \<open>The same world, but the log of node 1 never gets further than its first line.\<close>

definition stuck_world :: world where
  "stuck_world i = (if i = 1 then (local_world i)\<lparr>stdOutFile := stuck_log\<rparr> else local_world i)"

text \<open>The world in which every node starts at once, but the binary is not found when
  node 1 is to be started.\<close>

definition missing_binary_world :: world where
  "missing_binary_world i =
     (if i = 1 then (local_world i)\<lparr>findBinary := ([], False)\<rparr> else local_world i)"

text \<open>A world in which every node logs an empty address.\<close>

definition blank_world :: world where
  "blank_world i = ready_env []"

definition test_config :: "nat \<Rightarrow> end2EndConfig" where
  "test_config n =
     \<lparr> minimalConfig = True,
       tmpPath = ''/tmp/e2e'',
       epochsToRun = 6,
       numValidators = 64,
       numBeaconNodes = n,
       enableSSZCache = False,
       contractAddr = ''0x0000000000000000000000000000000000000000'' \<rparr>"

section \<open>Facts about the library functions\<close>

lemma strings_Index_ge: "strings_Index s sub \<ge> - 1"
  by (induction s) (auto simp: Let_def)

lemma strings_Index_neg: "strings_Index s sub = - 1 \<longleftrightarrow> \<not> sublist sub s"
proof (induction s)
  case Nil
  then show ?case by auto
next
  case (Cons c s)
  have "strings_Index s sub \<noteq> - 1 \<Longrightarrow> strings_Index s sub + 1 \<noteq> - 1"
    using strings_Index_ge [of s sub] by arith
  with Cons show ?case
    by (auto simp: Let_def sublist_Cons_right)
qed

lemma strings_Contains_sublist: "strings_Contains s sub \<longleftrightarrow> sublist sub s"
  using strings_Index_neg [of s sub] strings_Index_ge [of s sub]
  by (auto simp: strings_Contains_def)

lemma strings_Index_first:
  "strings_Index s sub = int i \<longleftrightarrow>
     i \<le> length s \<and> prefix sub (drop i s) \<and> (\<forall>j<i. \<not> prefix sub (drop j s))"
proof (induction s arbitrary: i)
  case Nil
  then show ?case by auto
next
  case (Cons c s)
  show ?case
  proof (cases "prefix sub (c # s)")
    case True
    then show ?thesis by (cases i) auto
  next
    case False
    note np = this
    show ?thesis
    proof (cases i)
      case 0
      with np show ?thesis using strings_Index_ge [of s sub] by (auto simp: Let_def)
    next
      case (Suc k)
      have "(\<forall>j<Suc k. \<not> prefix sub (drop j (c # s))) \<longleftrightarrow> (\<forall>j<k. \<not> prefix sub (drop j s))"
        using np by (auto simp: less_Suc_eq_0_disj)
      with np Suc Cons [of k] show ?thesis
        using strings_Index_ge [of s sub] by (auto simp: Let_def)
    qed
  qed
qed

lemma sublist_split_at:
  assumes "sublist m (xs @ a # ys)" and "a \<notin> set m"
  shows "sublist m xs \<or> sublist m ys"
proof -
  from assms(1) obtain ps ss where eq: "xs @ a # ys = ps @ m @ ss"
    by (auto simp: sublist_def)
  then consider (left) us where "xs = ps @ us" "us @ a # ys = m @ ss"
    | (right) us where "xs @ us = ps" "a # ys = us @ m @ ss"
    by (auto simp: append_eq_append_conv2)
  then show ?thesis
  proof cases
    case left
    from left(2) consider (l1) vs where "us = m @ vs"
      | (l2) vs where "us @ vs = m" "a # ys = vs @ ss" "vs \<noteq> []"
      by (auto simp: append_eq_append_conv2) metis
    then show ?thesis
    proof cases
      case l1
      with left(1) show ?thesis by auto
    next
      case l2
      then have "a \<in> set m" by (cases vs) auto
      with assms(2) show ?thesis by simp
    qed
  next
    case right
    show ?thesis
    proof (cases us)
      case Nil
      with right(2) assms(2) have "m = []" by (cases m) auto
      then show ?thesis by simp
    next
      case (Cons u us')
      with right(2) have "ys = us' @ m @ ss" by simp
      then show ?thesis by auto
    qed
  qed
qed

lemma sublist_snoc_other:
  assumes "sublist m (xs @ [a])" and "m \<noteq> []" and "last m \<noteq> a"
  shows "sublist m xs"
proof -
  from assms(1) obtain ps ss where eq: "xs @ [a] = ps @ m @ ss"
    by (auto simp: sublist_def)
  show ?thesis
  proof (cases ss rule: rev_cases)
    case Nil
    with eq assms(2) have "last m = a"
      by (metis append.right_neutral last_appendR last_snoc)
    with assms(3) show ?thesis by simp
  next
    case (snoc ss' b)
    with eq have "xs = ps @ m @ ss'" by (metis append.assoc butlast_snoc)
    then show ?thesis by auto
  qed
qed

lemma dropCR_prefix: "prefix (dropCR l) l"
  by (simp add: dropCR_def prefixeq_butlast)

lemma sublist_dropCR:
  assumes "sublist text l" and "text \<noteq> []" and "last text \<noteq> carriage_return"
  shows "sublist text (dropCR l)"
proof (cases "l \<noteq> [] \<and> last l = carriage_return")
  case True
  then have "l = butlast l @ [carriage_return]" by (metis append_butlast_last_id)
  with assms have "sublist text (butlast l)" by (metis sublist_snoc_other)
  with True show ?thesis by (simp add: dropCR_def)
next
  case False
  with assms(1) show ?thesis by (auto simp: dropCR_def)
qed

lemma scan_lines_tokens_sublist: "l \<in> set (fst (scan_lines c)) \<Longrightarrow> sublist l c"
proof (induction c arbitrary: l rule: scan_lines.induct)
  case (1 data)
  define line where "line = takeWhile (\<lambda>c. c \<noteq> newline) data"
  define rest where "rest = dropWhile (\<lambda>c. c \<noteq> newline) data"
  have data: "data = line @ rest" by (simp add: line_def rest_def)
  show ?case
  proof (cases "data = [] \<or> length line \<ge> MaxScanTokenSize")
    case True
    with "1.prems" show ?thesis
      by (subst (asm) scan_lines.simps) (auto simp: Let_def line_def split: if_splits)
  next
    case False
    then have fst_eq: "fst (scan_lines data) = dropCR line # fst (scan_lines (drop 1 rest))"
      by (subst scan_lines.simps) (auto simp: Let_def line_def rest_def split: prod.splits)
    from "1.prems" fst_eq consider "l = dropCR line" | "l \<in> set (fst (scan_lines (drop 1 rest)))"
      by auto
    then show ?thesis
    proof cases
      case 1
      have a: "sublist (dropCR line) line" using dropCR_prefix by (rule prefix_imp_sublist)
      have b: "sublist line (line @ rest)" by simp
      from sublist_order.order.trans [OF a b] show ?thesis using 1 data by simp
    next
      case 2
      with False have a: "sublist l (drop 1 rest)"
        using "1.IH" [of line rest l] by (simp add: line_def rest_def)
      have b: "sublist (drop 1 rest) rest" by (rule sublist_drop)
      have c: "sublist rest (line @ rest)" by simp
      from sublist_order.order.trans [OF sublist_order.order.trans [OF a b] c]
      show ?thesis using data by simp
    qed
  qed
qed

lemma scan_lines_find:
  assumes "snd (scan_lines c) = None" and "text \<noteq> []" and "newline \<notin> set text"
    and "last text \<noteq> carriage_return" and "sublist text c"
  shows "\<exists>l\<in>set (fst (scan_lines c)). sublist text l"
  using assms
proof (induction c rule: scan_lines.induct)
  case (1 data)
  define line where "line = takeWhile (\<lambda>c. c \<noteq> newline) data"
  define rest where "rest = dropWhile (\<lambda>c. c \<noteq> newline) data"
  have data: "data = line @ rest" by (simp add: line_def rest_def)
  from "1.prems" have ne: "data \<noteq> []" by auto
  have short: "\<not> length line \<ge> MaxScanTokenSize"
    using "1.prems"(1) ne by (subst (asm) scan_lines.simps) (auto simp: Let_def line_def split: if_splits)
  have fst_eq: "fst (scan_lines data) = dropCR line # fst (scan_lines (drop 1 rest))"
    using ne short
    by (subst scan_lines.simps) (auto simp: Let_def line_def rest_def split: prod.splits)
  have snd_eq: "snd (scan_lines data) = snd (scan_lines (drop 1 rest))"
    using ne short
    by (subst scan_lines.simps) (auto simp: Let_def line_def rest_def split: prod.splits)
  have "sublist text line \<or> sublist text (drop 1 rest)"
  proof (cases rest)
    case Nil
    with data "1.prems"(5) show ?thesis by simp
  next
    case (Cons r rest')
    then have "r = newline"
      using hd_dropWhile [of "\<lambda>c. c \<noteq> newline" data] by (simp add: rest_def)
    with Cons data "1.prems"(5) have "sublist text (line @ newline # rest')" by simp
    then have "sublist text line \<or> sublist text rest'"
      using "1.prems"(3) by (rule sublist_split_at)
    with Cons show ?thesis by simp
  qed
  then show ?case
  proof
    assume "sublist text line"
    with "1.prems" have "sublist text (dropCR line)" by (simp add: sublist_dropCR)
    with fst_eq show ?thesis by simp
  next
    assume sub: "sublist text (drop 1 rest)"
    have "\<exists>l\<in>set (fst (scan_lines (drop 1 rest))). sublist text l"
      using "1.IH" [of line rest] ne short sub "1.prems" snd_eq
      by (simp add: line_def rest_def)
    with fst_eq show ?thesis by simp
  qed
qed

lemma scanner_fst: "fst (scanner c rerr) = fst (scan_lines c)"
  by (simp add: scanner_def split: prod.splits option.splits)

lemma scanner_snd_None: "snd (scanner c rerr) = None \<Longrightarrow> snd (scan_lines c) = None"
  by (simp add: scanner_def split: prod.splits option.splits)

lemma scan_finds_iff: "scan_finds tokens text \<longleftrightarrow> (\<exists>l\<in>set tokens. sublist text l)"
  by (simp add: scan_finds_def list_ex_iff strings_Contains_sublist)

lemma poll_hit_sublist: "poll_hit p text \<Longrightarrow> sublist text (poll_content p)"
proof (cases p)
  case (SeekFailed err)
  then show "poll_hit p text \<Longrightarrow> ?thesis" by (simp add: poll_hit_def)
next
  case (FileData content rerr)
  assume "poll_hit p text"
  with FileData obtain l where l: "l \<in> set (fst (scan_lines content))" "sublist text l"
    by (auto simp: poll_hit_def scan_finds_iff scanner_fst)
  from l(1) have "sublist l content" by (rule scan_lines_tokens_sublist)
  from sublist_order.order.trans [OF l(2) this] FileData show ?thesis by simp
qed

lemma poll_ok_hit_iff:
  assumes "poll_ok p" and "text \<noteq> []" and "newline \<notin> set text"
    and "last text \<noteq> carriage_return"
  shows "poll_hit p text \<longleftrightarrow> sublist text (poll_content p)"
proof
  assume "poll_hit p text"
  then show "sublist text (poll_content p)" by (rule poll_hit_sublist)
next
  assume sub: "sublist text (poll_content p)"
  from assms(1) obtain content rerr where p: "p = FileData content rerr"
    and ok: "snd (scanner content rerr) = None"
    by (cases p) (auto simp: poll_ok_def)
  from ok have "snd (scan_lines content) = None" by (rule scanner_snd_None)
  from scan_lines_find [OF this assms(2,3,4)] sub p
  show "poll_hit p text" by (simp add: poll_hit_def scan_finds_iff scanner_fst)
qed

lemma poll_ok_miss: "poll_ok p \<Longrightarrow> poll_miss p text \<longleftrightarrow> \<not> poll_hit p text"
  by (cases p) (auto simp: poll_ok_def poll_miss_def poll_hit_def)

lemma poll_miss_not_hit: "poll_miss p text \<Longrightarrow> \<not> poll_hit p text"
  by (cases p) (auto simp: poll_miss_def poll_hit_def)

lemma wait_loop_done:
  "\<not> wait < maxWait \<Longrightarrow> wait_loop file text wait clock = (Some (timeout_error file text), clock)"
  by (subst wait_loop.simps) (simp add: timeout_error_def split: sum.splits)

lemma wait_loop_hit:
  "wait < maxWait \<Longrightarrow> poll_hit (poll_at file (clock + 2)) text \<Longrightarrow>
   wait_loop file text wait clock = (None, clock + 2)"
  by (subst wait_loop.simps) (auto simp: poll_hit_def Let_def split: poll.splits prod.splits)

lemma wait_loop_miss:
  "wait < maxWait \<Longrightarrow> poll_miss (poll_at file (clock + 2)) text \<Longrightarrow>
   wait_loop file text wait clock = wait_loop file text (wait + 2) (clock + 2)"
  by (subst wait_loop.simps) (auto simp: poll_miss_def Let_def split: poll.splits prod.splits)

lemma wait_loop_fail:
  "wait < maxWait \<Longrightarrow> \<not> poll_hit (poll_at file (clock + 2)) text \<Longrightarrow>
   \<not> poll_miss (poll_at file (clock + 2)) text \<Longrightarrow>
   fst (wait_loop file text wait clock) \<noteq> None \<and> snd (wait_loop file text wait clock) = clock + 2"
  by (subst (1 2) wait_loop.simps)
     (auto simp: poll_miss_def poll_hit_def Let_def split: poll.splits prod.splits option.splits)

lemma wait_loop_first_hit:
  "wait + 2 * k < maxWait \<Longrightarrow> poll_hit (poll_at file (clock + 2 * k + 2)) text \<Longrightarrow>
   (\<forall>j<k. poll_miss (poll_at file (clock + 2 * j + 2)) text) \<Longrightarrow>
   wait_loop file text wait clock = (None, clock + 2 * k + 2)"
proof (induction k arbitrary: wait clock)
  case 0
  then show ?case by (simp add: wait_loop_hit)
next
  case (Suc k)
  from Suc.prems(1) have lt: "wait < maxWait" by simp
  from Suc.prems(3) have "poll_miss (poll_at file (clock + 2)) text"
    by (metis add.right_neutral mult_zero_right zero_less_Suc)
  with lt have step: "wait_loop file text wait clock = wait_loop file text (wait + 2) (clock + 2)"
    by (rule wait_loop_miss)
  have "wait_loop file text (wait + 2) (clock + 2) = (None, (clock + 2) + 2 * k + 2)"
  proof (rule Suc.IH)
    show "wait + 2 + 2 * k < maxWait" using Suc.prems(1) by simp
    show "poll_hit (poll_at file (clock + 2 + 2 * k + 2)) text"
      using Suc.prems(2) by (simp add: add.commute add.left_commute)
    show "\<forall>j<k. poll_miss (poll_at file (clock + 2 + 2 * j + 2)) text"
    proof (intro allI impI)
      fix j assume "j < k"
      then have "Suc j < Suc k" by simp
      with Suc.prems(3) have "poll_miss (poll_at file (clock + 2 * Suc j + 2)) text"
        by blast
      then show "poll_miss (poll_at file (clock + 2 + 2 * j + 2)) text"
        by (simp add: add.commute add.left_commute)
    qed
  qed
  with step show ?case by simp
qed

lemma wait_loop_success:
  "fst (wait_loop file text wait clock) = None \<Longrightarrow>
   \<exists>k. wait + 2 * k < maxWait \<and> poll_hit (poll_at file (clock + 2 * k + 2)) text \<and>
       (\<forall>j<k. poll_miss (poll_at file (clock + 2 * j + 2)) text)"
proof (induction "maxWait - wait" arbitrary: wait clock rule: less_induct)
  case less
  show ?case
  proof (cases "wait < maxWait")
    case False
    with less.prems show ?thesis by (simp add: wait_loop_done)
  next
    case lt: True
    show ?thesis
    proof (cases "poll_hit (poll_at file (clock + 2)) text")
      case True
      with lt have "wait + 2 * 0 < maxWait \<and> poll_hit (poll_at file (clock + 2 * 0 + 2)) text \<and>
        (\<forall>j<0. poll_miss (poll_at file (clock + 2 * j + 2)) text)" by simp
      then show ?thesis by blast
    next
      case nohit: False
      show ?thesis
      proof (cases "poll_miss (poll_at file (clock + 2)) text")
        case False
        with lt nohit less.prems show ?thesis using wait_loop_fail [of wait "file" clock "text"] by simp
      next
        case miss: True
        with lt have step: "wait_loop file text wait clock = wait_loop file text (wait + 2) (clock + 2)"
          by (rule wait_loop_miss)
        have "maxWait - (wait + 2) < maxWait - wait" using lt by simp
        moreover have "fst (wait_loop file text (wait + 2) (clock + 2)) = None"
          using less.prems step by simp
        ultimately have "\<exists>k. wait + 2 + 2 * k < maxWait \<and>
            poll_hit (poll_at file (clock + 2 + 2 * k + 2)) text \<and>
            (\<forall>j<k. poll_miss (poll_at file (clock + 2 + 2 * j + 2)) text)"
          by (rule less.hyps)
        then obtain k where k: "wait + 2 + 2 * k < maxWait"
          "poll_hit (poll_at file (clock + 2 + 2 * k + 2)) text"
          "\<forall>j<k. poll_miss (poll_at file (clock + 2 + 2 * j + 2)) text"
          by blast
        have "wait + 2 * Suc k < maxWait" using k(1) by simp
        moreover have "poll_hit (poll_at file (clock + 2 * Suc k + 2)) text"
          using k(2) by (simp add: add.commute add.left_commute)
        moreover have "\<forall>j<Suc k. poll_miss (poll_at file (clock + 2 * j + 2)) text"
        proof (intro allI impI)
          fix j assume j: "j < Suc k"
          show "poll_miss (poll_at file (clock + 2 * j + 2)) text"
          proof (cases j)
            case 0
            with miss show ?thesis by simp
          next
            case (Suc i)
            with j k(3) have "poll_miss (poll_at file (clock + 2 + 2 * i + 2)) text" by simp
            with Suc show ?thesis by (simp add: add.commute add.left_commute)
          qed
        qed
        ultimately show ?thesis by blast
      qed
    qed
  qed
qed

lemma wait_loop_clock:
  "snd (wait_loop file text wait clock) \<le> clock + 2 * ((maxWait - wait + 1) div 2)"
proof (induction "maxWait - wait" arbitrary: wait clock rule: less_induct)
  case less
  show ?case
  proof (cases "wait < maxWait")
    case False
    then show ?thesis by (simp add: wait_loop_done)
  next
    case lt: True
    then have here: "clock + 2 \<le> clock + 2 * ((maxWait - wait + 1) div 2)" by arith
    show ?thesis
    proof (cases "poll_hit (poll_at file (clock + 2)) text")
      case True
      with lt here show ?thesis by (simp add: wait_loop_hit)
    next
      case nohit: False
      show ?thesis
      proof (cases "poll_miss (poll_at file (clock + 2)) text")
        case False
        with lt nohit here show ?thesis using wait_loop_fail [of wait "file" clock "text"] by simp
      next
        case miss: True
        with lt have step: "wait_loop file text wait clock = wait_loop file text (wait + 2) (clock + 2)"
          by (rule wait_loop_miss)
        have "maxWait - (wait + 2) < maxWait - wait" using lt by simp
        from less.hyps [OF this, of "clock + 2"]
        have "snd (wait_loop file text (wait + 2) (clock + 2))
              \<le> clock + 2 + 2 * ((maxWait - (wait + 2) + 1) div 2)" .
        also have "\<dots> \<le> clock + 2 * ((maxWait - wait + 1) div 2)" using lt by arith
        finally show ?thesis using step by simp
      qed
    qed
  qed
qed

lemma wait_loop_timeout:
  "(\<forall>k. wait + 2 * k < maxWait \<longrightarrow> poll_miss (poll_at file (clock + 2 * k + 2)) text) \<Longrightarrow>
   wait_loop file text wait clock
     = (Some (timeout_error file text), clock + 2 * ((maxWait - wait + 1) div 2))"
proof (induction "maxWait - wait" arbitrary: wait clock rule: less_induct)
  case less
  show ?case
  proof (cases "wait < maxWait")
    case False
    then show ?thesis by (simp add: wait_loop_done)
  next
    case lt: True
    with less.prems have "poll_miss (poll_at file (clock + 2 * 0 + 2)) text"
      by (metis add.right_neutral mult_zero_right)
    then have "poll_miss (poll_at file (clock + 2)) text" by simp
    with lt have step: "wait_loop file text wait clock = wait_loop file text (wait + 2) (clock + 2)"
      by (rule wait_loop_miss)
    have dec: "maxWait - (wait + 2) < maxWait - wait" using lt by simp
    have "wait_loop file text (wait + 2) (clock + 2)
          = (Some (timeout_error file text), clock + 2 + 2 * ((maxWait - (wait + 2) + 1) div 2))"
    proof (rule less.hyps [OF dec], intro allI impI)
      fix k assume "wait + 2 + 2 * k < maxWait"
      then have "wait + 2 * Suc k < maxWait" by simp
      with less.prems have "poll_miss (poll_at file (clock + 2 * Suc k + 2)) text" by blast
      then show "poll_miss (poll_at file (clock + 2 + 2 * k + 2)) text"
        by (simp add: add.commute add.left_commute)
    qed
    moreover have "clock + 2 + 2 * ((maxWait - (wait + 2) + 1) div 2)
                   = clock + 2 * ((maxWait - wait + 1) div 2)" using lt by arith
    ultimately show ?thesis using step by simp
  qed
qed

lemma scan_lines_eval:
  "scan_lines [] = ([], None)"
  "scan_lines (c # cs) =
     (let line = takeWhile (\<lambda>c. c \<noteq> newline) (c # cs);
          rest = dropWhile (\<lambda>c. c \<noteq> newline) (c # cs)
      in if length line \<ge> MaxScanTokenSize then ([], Some ErrTooLong)
         else (case scan_lines (drop 1 rest) of
                 (tokens, err) \<Rightarrow> (dropCR line # tokens, err)))"
  by (subst scan_lines.simps, simp)+

lemmas go_eval = scan_lines_eval scanner_def scan_finds_def strings_Contains_def dropCR_def
  MaxScanTokenSize_def newline_def carriage_return_def dquote_def Let_def

lemma waitForTextInFile_all_miss:
  assumes "\<forall>k\<in>{1..18}. poll_miss (poll_at file (2 * k)) text"
  shows "waitForTextInFile file text = (Some (timeout_error file text), 36)"
proof -
  have "\<forall>k. 0 + 2 * k < maxWait \<longrightarrow> poll_miss (poll_at file (0 + 2 * k + 2)) text"
  proof (intro allI impI)
    fix k :: nat assume "0 + 2 * k < maxWait"
    then have "Suc k \<in> {1..18}" by (simp add: maxWait_def)
    with assms have "poll_miss (poll_at file (2 * Suc k)) text" by blast
    then show "poll_miss (poll_at file (0 + 2 * k + 2)) text" by simp
  qed
  from wait_loop_timeout [OF this] show ?thesis
    by (simp add: waitForTextInFile_def maxWait_def)
qed

lemma waitForTextInFile_elapsed: "snd (waitForTextInFile file text) \<le> 36"
  using wait_loop_clock [of "file" "text" 0 0] by (simp add: waitForTextInFile_def maxWait_def)

lemma waitForTextInFile_success_iff:
  "fst (waitForTextInFile file text) = None \<longleftrightarrow>
     (\<exists>k\<in>{1..18}. poll_hit (poll_at file (2 * k)) text \<and>
        (\<forall>j\<in>{1..<k}. poll_miss (poll_at file (2 * j)) text))"
proof
  assume "fst (waitForTextInFile file text) = None"
  then have "fst (wait_loop file text 0 0) = None" by (simp add: waitForTextInFile_def)
  from wait_loop_success [OF this] obtain k where k: "2 * k < maxWait"
    "poll_hit (poll_at file (2 * k + 2)) text"
    "\<forall>j<k. poll_miss (poll_at file (2 * j + 2)) text" by auto
  have "Suc k \<in> {1..18}" using k(1) by (simp add: maxWait_def)
  moreover have "poll_hit (poll_at file (2 * Suc k)) text" using k(2) by simp
  moreover have "\<forall>j\<in>{1..<Suc k}. poll_miss (poll_at file (2 * j)) text"
  proof
    fix j assume "j \<in> {1..<Suc k}"
    then obtain i where "j = Suc i" "i < k" by (cases j) auto
    with k(3) show "poll_miss (poll_at file (2 * j)) text" by auto
  qed
  ultimately show "\<exists>k\<in>{1..18}. poll_hit (poll_at file (2 * k)) text \<and>
        (\<forall>j\<in>{1..<k}. poll_miss (poll_at file (2 * j)) text)" by blast
next
  assume "\<exists>k\<in>{1..18}. poll_hit (poll_at file (2 * k)) text \<and>
        (\<forall>j\<in>{1..<k}. poll_miss (poll_at file (2 * j)) text)"
  then obtain k where k: "k \<in> {1..18}" "poll_hit (poll_at file (2 * k)) text"
    "\<forall>j\<in>{1..<k}. poll_miss (poll_at file (2 * j)) text" by blast
  then obtain i where i: "k = Suc i" by (cases k) auto
  have "wait_loop file text 0 0 = (None, 0 + 2 * i + 2)"
  proof (rule wait_loop_first_hit)
    show "0 + 2 * i < maxWait" using k(1) i by (simp add: maxWait_def)
    show "poll_hit (poll_at file (0 + 2 * i + 2)) text" using k(2) i by simp
    show "\<forall>j<i. poll_miss (poll_at file (0 + 2 * j + 2)) text"
    proof (intro allI impI)
      fix j assume "j < i"
      then have "Suc j \<in> {1..<k}" using i by simp
      with k(3) have "poll_miss (poll_at file (2 * Suc j)) text" by blast
      then show "poll_miss (poll_at file (0 + 2 * j + 2)) text" by simp
    qed
  qed
  then show "fst (waitForTextInFile file text) = None" by (simp add: waitForTextInFile_def)
qed

lemma first_hit_exists:
  assumes "k \<in> {1..18::nat}" and "P k"
  shows "\<exists>k\<in>{1..18}. P k \<and> (\<forall>j\<in>{1..<k}. \<not> P j)"
proof -
  define m where "m = (LEAST n. n \<in> {1..18} \<and> P n)"
  have m: "m \<in> {1..18} \<and> P m"
    unfolding m_def using assms by (intro LeastI [of "\<lambda>n. n \<in> {1..18} \<and> P n" k]) simp
  have "\<forall>j\<in>{1..<m}. \<not> P j"
  proof
    fix j assume j: "j \<in> {1..<m}"
    show "\<not> P j"
    proof
      assume "P j"
      with j m have "j \<in> {1..18} \<and> P j" by auto
      then have "m \<le> j" unfolding m_def by (rule Least_le)
      with j show False by simp
    qed
  qed
  with m show ?thesis by blast
qed

section \<open>The readiness watcher\<close>

text \<open>
  Claim C1, as amended. For a marker that is not empty, holds no newline and does not end
  in a carriage return, and a log whose eighteen polls (one every two seconds) all read
  the file without error: \<open>waitForTextInFile\<close> returns nil exactly when the marker is a
  substring of the content read at one of the eighteen polls; it always returns, after
  at most 36 seconds of sleep, and a failure is returned after exactly 36 seconds.
\<close>

theorem waitForTextInFile_ready_iff:
  assumes "text \<noteq> []" and "newline \<notin> set text" and "last text \<noteq> carriage_return"
    and "\<forall>k\<in>{1..18}. poll_ok (poll_at file (2 * k))"
  shows "(fst (waitForTextInFile file text) = None \<longleftrightarrow>
            (\<exists>k\<in>{1..18}. sublist text (poll_content (poll_at file (2 * k)))))
         \<and> snd (waitForTextInFile file text) \<le> 36
         \<and> (fst (waitForTextInFile file text) \<noteq> None \<longrightarrow> snd (waitForTextInFile file text) = 36)"
proof -
  have ok: "poll_ok (poll_at file (2 * k))" if "k \<in> {1..18}" for k
    using assms(4) that by (rule bspec)
  have hit: "poll_hit (poll_at file (2 * k)) text \<longleftrightarrow> sublist text (poll_content (poll_at file (2 * k)))"
    if "k \<in> {1..18}" for k
    using ok [OF that] assms(1,2,3) by (rule poll_ok_hit_iff)
  have miss: "poll_miss (poll_at file (2 * k)) text \<longleftrightarrow> \<not> poll_hit (poll_at file (2 * k)) text"
    if "k \<in> {1..18}" for k
    using ok [OF that] by (rule poll_ok_miss)
  have iff: "fst (waitForTextInFile file text) = None \<longleftrightarrow>
            (\<exists>k\<in>{1..18}. sublist text (poll_content (poll_at file (2 * k))))"
  proof
    assume "fst (waitForTextInFile file text) = None"
    then have "\<exists>k\<in>{1..18}. poll_hit (poll_at file (2 * k)) text \<and>
        (\<forall>j\<in>{1..<k}. poll_miss (poll_at file (2 * j)) text)"
      by (rule iffD1 [OF waitForTextInFile_success_iff])
    then obtain k where k: "k \<in> {1..18}" "poll_hit (poll_at file (2 * k)) text"
      by blast
    from k(2) hit [OF k(1)] have "sublist text (poll_content (poll_at file (2 * k)))" by simp
    with k(1) show "\<exists>k\<in>{1..18}. sublist text (poll_content (poll_at file (2 * k)))"
      by (rule bexI [rotated])
  next
    assume "\<exists>k\<in>{1..18}. sublist text (poll_content (poll_at file (2 * k)))"
    then obtain k where k: "k \<in> {1..18}" "sublist text (poll_content (poll_at file (2 * k)))"
      by (rule bexE)
    from k(2) hit [OF k(1)] have "poll_hit (poll_at file (2 * k)) text" by simp
    from first_hit_exists [of k "\<lambda>k. poll_hit (poll_at file (2 * k)) text", OF k(1) this]
    obtain m where m: "m \<in> {1..18}" "poll_hit (poll_at file (2 * m)) text"
      "\<forall>j\<in>{1..<m}. \<not> poll_hit (poll_at file (2 * j)) text" by blast
    have "\<forall>j\<in>{1..<m}. poll_miss (poll_at file (2 * j)) text"
    proof
      fix j assume j: "j \<in> {1..<m}"
      with m(1) have "j \<in> {1..18}" by simp
      from miss [OF this] m(3) j show "poll_miss (poll_at file (2 * j)) text" by simp
    qed
    with m(2) have "poll_hit (poll_at file (2 * m)) text \<and>
        (\<forall>j\<in>{1..<m}. poll_miss (poll_at file (2 * j)) text)" by (rule conjI)
    with m(1) have "\<exists>k\<in>{1..18}. poll_hit (poll_at file (2 * k)) text \<and>
        (\<forall>j\<in>{1..<k}. poll_miss (poll_at file (2 * j)) text)" by (rule bexI [rotated])
    then show "fst (waitForTextInFile file text) = None"
      by (rule iffD2 [OF waitForTextInFile_success_iff])
  qed
  have late: "snd (waitForTextInFile file text) = 36" if "fst (waitForTextInFile file text) \<noteq> None"
  proof -
    have "\<forall>k\<in>{1..18}. poll_miss (poll_at file (2 * k)) text"
    proof
      fix k :: nat assume k: "k \<in> {1..18}"
      have "\<not> sublist text (poll_content (poll_at file (2 * k)))"
      proof
        assume "sublist text (poll_content (poll_at file (2 * k)))"
        with k have "\<exists>k\<in>{1..18}. sublist text (poll_content (poll_at file (2 * k)))"
          by (rule bexI [rotated])
        then have "fst (waitForTextInFile file text) = None" by (rule iffD2 [OF iff])
        with that show False by simp
      qed
      with hit [OF k] miss [OF k] show "poll_miss (poll_at file (2 * k)) text" by simp
    qed
    then show ?thesis by (simp add: waitForTextInFile_all_miss)
  qed
  show ?thesis
  proof (intro conjI impI)
    show "fst (waitForTextInFile file text) = None \<longleftrightarrow>
            (\<exists>k\<in>{1..18}. sublist text (poll_content (poll_at file (2 * k))))" by (rule iff)
    show "snd (waitForTextInFile file text) \<le> 36" by (rule waitForTextInFile_elapsed)
    show "snd (waitForTextInFile file text) = 36" if "fst (waitForTextInFile file text) \<noteq> None"
      using that by (rule late)
  qed
qed

lemma slow_start_log_polls: "poll_ok (poll_at slow_start_log t)"
  by (simp add: slow_start_log_def poll_ok_def started_line_def go_eval)

lemma slow_start_log_contains:
  "sublist ''Node started p2p server'' (poll_content (poll_at slow_start_log (2 * 3)))"
  by (simp add: slow_start_log_def started_line_def go_eval sublist_code)

theorem waitForTextInFile_ready_iff_witness:
  "''Node started p2p server'' \<noteq> []
   \<and> newline \<notin> set ''Node started p2p server''
   \<and> last ''Node started p2p server'' \<noteq> carriage_return
   \<and> list_all (\<lambda>k. poll_ok (poll_at slow_start_log (2 * k))) [1..<19]
   \<and> fst (waitForTextInFile slow_start_log ''Node started p2p server'') = None
   \<and> (\<exists>k\<in>{1..18}. sublist ''Node started p2p server'' (poll_content (poll_at slow_start_log (2 * k))))
   \<and> snd (waitForTextInFile slow_start_log ''Node started p2p server'') \<le> 36"
proof -
  have h1: "''Node started p2p server'' \<noteq> []" by simp
  have h2: "newline \<notin> set ''Node started p2p server''" by (simp add: newline_def)
  have h3: "last ''Node started p2p server'' \<noteq> carriage_return" by (simp add: carriage_return_def)
  have h4: "\<forall>k\<in>{1..18}. poll_ok (poll_at slow_start_log (2 * k))"
    by (simp add: slow_start_log_polls)
  have ex: "\<exists>k\<in>{1..18}. sublist ''Node started p2p server'' (poll_content (poll_at slow_start_log (2 * k)))"
    using slow_start_log_contains by (intro bexI [of _ 3]) simp_all
  have h4': "list_all (\<lambda>k. poll_ok (poll_at slow_start_log (2 * k))) [1..<19]"
    by (simp add: list_all_iff slow_start_log_polls)
  from waitForTextInFile_ready_iff [OF h1 h2 h3 h4] h1 h2 h3 h4' ex show ?thesis by blast
qed

lemma constant_log_fails:
  assumes "poll_miss (FileData c None) text"
  shows "fst (waitForTextInFile (constant_log c) text) \<noteq> None"
proof -
  from assms have "\<forall>k\<in>{1..18}. poll_miss (poll_at (constant_log c) (2 * k)) text"
    by (simp add: constant_log_def)
  then show ?thesis by (simp add: waitForTextInFile_all_miss)
qed

text \<open>
  Claim C1 as stated, for every marker string, fails: the watcher looks for the marker in
  each line, so a marker that spans a newline, an empty marker on an empty log, and a
  marker that ends in the carriage return of a line's end are never found, although each
  is a substring of the log content that every poll reads without error.
\<close>

theorem waitForTextInFile_ready_iff_counterexample:
  "(poll_ok (poll_at (constant_log (''Node started'' @ [newline] @ ''p2p server'' @ [newline])) 2)
    \<and> sublist (''started'' @ [newline] @ ''p2p'')
         (poll_content (poll_at (constant_log (''Node started'' @ [newline] @ ''p2p server'' @ [newline])) 2))
    \<and> fst (waitForTextInFile (constant_log (''Node started'' @ [newline] @ ''p2p server'' @ [newline]))
             (''started'' @ [newline] @ ''p2p'')) \<noteq> None)
   \<and> (poll_ok (poll_at (constant_log []) 2)
    \<and> sublist [] (poll_content (poll_at (constant_log []) 2))
    \<and> fst (waitForTextInFile (constant_log []) []) \<noteq> None)
   \<and> (poll_ok (poll_at (constant_log (''p2p server'' @ [carriage_return, newline])) 2)
    \<and> sublist (''server'' @ [carriage_return])
         (poll_content (poll_at (constant_log (''p2p server'' @ [carriage_return, newline])) 2))
    \<and> fst (waitForTextInFile (constant_log (''p2p server'' @ [carriage_return, newline]))
             (''server'' @ [carriage_return])) \<noteq> None)"
proof (intro conjI)
  show "poll_ok (poll_at (constant_log (''Node started'' @ [newline] @ ''p2p server'' @ [newline])) 2)"
    by (simp add: constant_log_def poll_ok_def go_eval)
  show "sublist (''started'' @ [newline] @ ''p2p'')
         (poll_content (poll_at (constant_log (''Node started'' @ [newline] @ ''p2p server'' @ [newline])) 2))"
    by (simp add: constant_log_def go_eval sublist_code)
  show "fst (waitForTextInFile (constant_log (''Node started'' @ [newline] @ ''p2p server'' @ [newline]))
             (''started'' @ [newline] @ ''p2p'')) \<noteq> None"
    by (rule constant_log_fails) (simp add: poll_miss_def go_eval)
  show "poll_ok (poll_at (constant_log []) 2)"
    by (simp add: constant_log_def poll_ok_def go_eval)
  show "sublist [] (poll_content (poll_at (constant_log []) 2))"
    by simp
  show "fst (waitForTextInFile (constant_log []) []) \<noteq> None"
    by (rule constant_log_fails) (simp add: poll_miss_def go_eval)
  show "poll_ok (poll_at (constant_log (''p2p server'' @ [carriage_return, newline])) 2)"
    by (simp add: constant_log_def poll_ok_def go_eval)
  show "sublist (''server'' @ [carriage_return])
         (poll_content (poll_at (constant_log (''p2p server'' @ [carriage_return, newline])) 2))"
    by (simp add: constant_log_def go_eval sublist_code)
  show "fst (waitForTextInFile (constant_log (''p2p server'' @ [carriage_return, newline]))
             (''server'' @ [carriage_return])) \<noteq> None"
    by (rule constant_log_fails) (simp add: poll_miss_def go_eval)
qed

text \<open>
  Claim C9, as amended. When all eighteen polls read the log without finding the marker
  and without error, \<open>waitForTextInFile\<close> returns after 36 seconds of sleep. When the log
  file is then read, as \<open>contents\<close>, the error returned has as its message the searched
  text in quotes followed by the whole of \<open>contents\<close>; when that read fails, the error
  returned is the error of the read.
\<close>

theorem waitForTextInFile_timeout_report:
  assumes "\<forall>k\<in>{1..18}. poll_miss (poll_at file (2 * k)) text"
  shows "waitForTextInFile file text
           = (Some (case read_file file of
                      Inl err \<Rightarrow> err
                    | Inr contents \<Rightarrow>
                        Errorf (''could not find requested text '' @ [dquote] @ text @ [dquote]
                                @ '' in logs:'' @ [newline] @ contents)), 36)
         \<and> (case read_file file of
               Inl err \<Rightarrow> True
             | Inr contents \<Rightarrow>
                 error_message (the (fst (waitForTextInFile file text)))
                   = ''could not find requested text '' @ [dquote] @ text @ [dquote]
                     @ '' in logs:'' @ [newline] @ contents)"
  using waitForTextInFile_all_miss [OF assms]
  by (simp add: timeout_error_def split: sum.splits)

lemma stuck_log_misses:
  "\<forall>k\<in>{1..18}. poll_miss (poll_at stuck_log (2 * k)) ''Node started p2p server''"
  by (simp add: stuck_log_def poll_miss_def go_eval)

lemma unreadable_log_misses:
  "poll_miss (poll_at unreadable_log t) ''Node started p2p server''"
  by (simp add: unreadable_log_def poll_miss_def go_eval)

theorem waitForTextInFile_timeout_report_witness:
  "list_all (\<lambda>k. poll_miss (poll_at stuck_log (2 * k)) ''Node started p2p server'') [1..<19]
   \<and> read_file stuck_log = Inr (''level=info msg=starting'' @ [newline])
   \<and> waitForTextInFile stuck_log ''Node started p2p server''
       = (Some (Errorf (''could not find requested text '' @ [dquote] @ ''Node started p2p server''
                        @ [dquote] @ '' in logs:'' @ [newline]
                        @ ''level=info msg=starting'' @ [newline])), 36)
   \<and> error_message (the (fst (waitForTextInFile stuck_log ''Node started p2p server'')))
       = ''could not find requested text '' @ [dquote] @ ''Node started p2p server''
         @ [dquote] @ '' in logs:'' @ [newline] @ ''level=info msg=starting'' @ [newline]"
proof -
  have h2: "read_file stuck_log = Inr (''level=info msg=starting'' @ [newline])"
    by (simp add: stuck_log_def)
  have h1': "list_all (\<lambda>k. poll_miss (poll_at stuck_log (2 * k)) ''Node started p2p server'') [1..<19]"
    using stuck_log_misses by (simp add: list_all_iff)
  from waitForTextInFile_timeout_report [OF stuck_log_misses] h1' h2 show ?thesis by simp
qed

text \<open>
  Claim C9 as stated fails when the log file cannot be read once the budget is used up:
  after eighteen polls without the marker, the error returned is the one of the read, and
  its message holds neither the searched text nor what the log contained.
\<close>

theorem waitForTextInFile_timeout_report_counterexample:
  "poll_miss (poll_at unreadable_log 2) ''Node started p2p server''
   \<and> poll_miss (poll_at unreadable_log 36) ''Node started p2p server''
   \<and> poll_content (poll_at unreadable_log 36) = ''level=info msg=starting'' @ [newline]
   \<and> waitForTextInFile unreadable_log ''Node started p2p server''
       = (Some (OsError ''open /tmp/e2e/beacon-0.log: no such file or directory''), 36)
   \<and> \<not> sublist ''Node started p2p server''
         (error_message (the (fst (waitForTextInFile unreadable_log ''Node started p2p server''))))
   \<and> \<not> sublist ''level=info msg=starting''
         (error_message (the (fst (waitForTextInFile unreadable_log ''Node started p2p server''))))"
proof -
  have "\<forall>k\<in>{1..18}. poll_miss (poll_at unreadable_log (2 * k)) ''Node started p2p server''"
    by (simp add: unreadable_log_misses)
  then have r: "waitForTextInFile unreadable_log ''Node started p2p server''
       = (Some (OsError ''open /tmp/e2e/beacon-0.log: no such file or directory''), 36)"
    by (simp add: waitForTextInFile_all_miss timeout_error_def unreadable_log_def)
  have c: "poll_content (poll_at unreadable_log 36) = ''level=info msg=starting'' @ [newline]"
    by (simp add: unreadable_log_def)
  have n1: "\<not> sublist ''Node started p2p server''
      ''open /tmp/e2e/beacon-0.log: no such file or directory''"
    by (simp add: sublist_Cons_right)
  have n2: "\<not> sublist ''level=info msg=starting''
      ''open /tmp/e2e/beacon-0.log: no such file or directory''"
    by (simp add: sublist_Cons_right)
  from r c n1 n2 unreadable_log_misses [of 2] unreadable_log_misses [of 36]
  show ?thesis by simp
qed

section \<open>The address extractor\<close>

lemma strings_Index_single:
  "strings_Index s [c] = (if c \<in> set s then int (length (takeWhile (\<lambda>x. x \<noteq> c) s)) else - 1)"
  by (induction s) (auto simp: Let_def)

lemma getMultiAddr_not_found:
  "\<not> sublist searchText contents \<Longrightarrow>
   getMultiAddrFromLogFile (Inr contents) = Inl (Errorf (''did not find peer text in '' @ contents))"
  by (simp add: getMultiAddrFromLogFile_def strings_Index_neg)

lemma getMultiAddr_at:
  assumes "strings_Index contents searchText = int i"
  shows "getMultiAddrFromLogFile (Inr contents) =
     (if dquote \<in> set (drop (i + length searchText) contents)
      then Inr (takeWhile (\<lambda>c. c \<noteq> dquote) (drop (i + length searchText) contents))
      else Inl (Errorf (''did not find peer text in '' @ contents)))"
proof -
  define tail where "tail = drop (i + length searchText) contents"
  have idx: "nat (int i + int (length searchText)) = i + length searchText"
    by (simp add: nat_add_distrib)
  show ?thesis
  proof (cases "dquote \<in> set tail")
    case False
    then show ?thesis
      using assms
      by (simp add: getMultiAddrFromLogFile_def Let_def strings_Index_single tail_def idx)
  next
    case True
    have "slice contents (i + length searchText)
            (nat (int i + int (length searchText) + int (length (takeWhile (\<lambda>x. x \<noteq> dquote) tail))))
          = take (length (takeWhile (\<lambda>x. x \<noteq> dquote) tail)) tail"
      by (simp add: slice_def tail_def nat_add_distrib)
    also have "\<dots> = takeWhile (\<lambda>x. x \<noteq> dquote) tail"
      by (rule takeWhile_eq_take [symmetric])
    finally show ?thesis
      using assms True
      by (simp add: getMultiAddrFromLogFile_def Let_def strings_Index_single tail_def idx)
  qed
qed

lemma strings_Index_at:
  assumes "\<forall>j<length pre. \<not> prefix sub (drop j (pre @ sub @ rest))"
  shows "strings_Index (pre @ sub @ rest) sub = int (length pre)"
  unfolding strings_Index_first using assms by simp

lemma getMultiAddr_first:
  assumes "\<forall>j<length pre. \<not> prefix searchText (drop j (pre @ searchText @ tail))"
  shows "getMultiAddrFromLogFile (Inr (pre @ searchText @ tail)) =
     (if dquote \<in> set tail then Inr (takeWhile (\<lambda>c. c \<noteq> dquote) tail)
      else Inl (Errorf (''did not find peer text in '' @ pre @ searchText @ tail)))"
  using getMultiAddr_at [OF strings_Index_at [OF assms]] by simp

lemma no_earlier_prefix:
  "strings_Index (pre @ sub @ rest) sub = int (length pre) \<Longrightarrow>
   \<forall>j<length pre. \<not> prefix sub (drop j (pre @ sub @ rest))"
  unfolding strings_Index_first by simp

text \<open>
  Claim C5. The result of \<open>getMultiAddrFromLogFile\<close> is a function of the text read from
  the log. When the text holds the prefix \<open>"Node started p2p server" multiAddr="\<close>, at its
  first place followed by an address without a quote and a closing quote, the result is
  exactly that address. When the text does not hold the prefix, and when no quote follows
  the prefix, the result is the error \<open>did not find peer text\<close>, not a value.
\<close>

theorem getMultiAddrFromLogFile_extracts:
  "((\<forall>j<length pre. \<not> prefix searchText (drop j (pre @ searchText @ addr @ [dquote] @ rest)))
      \<and> dquote \<notin> set addr
    \<longrightarrow> getMultiAddrFromLogFile (Inr (pre @ searchText @ addr @ [dquote] @ rest)) = Inr addr)
   \<and> (\<not> sublist searchText contents
    \<longrightarrow> getMultiAddrFromLogFile (Inr contents)
          = Inl (Errorf (''did not find peer text in '' @ contents)))
   \<and> ((\<forall>j<length pre'. \<not> prefix searchText (drop j (pre' @ searchText @ rest')))
      \<and> dquote \<notin> set rest'
    \<longrightarrow> getMultiAddrFromLogFile (Inr (pre' @ searchText @ rest'))
          = Inl (Errorf (''did not find peer text in '' @ pre' @ searchText @ rest')))"
proof (intro conjI impI)
  assume "(\<forall>j<length pre. \<not> prefix searchText (drop j (pre @ searchText @ addr @ [dquote] @ rest)))
      \<and> dquote \<notin> set addr"
  then have first: "\<forall>j<length pre. \<not> prefix searchText (drop j (pre @ searchText @ addr @ [dquote] @ rest))"
    and addr: "dquote \<notin> set addr" by blast+
  from addr have "takeWhile (\<lambda>c. c \<noteq> dquote) (addr @ [dquote] @ rest) = addr"
    by (subst takeWhile_append2) auto
  with getMultiAddr_first [OF first]
  show "getMultiAddrFromLogFile (Inr (pre @ searchText @ addr @ [dquote] @ rest)) = Inr addr"
    by simp
next
  assume "\<not> sublist searchText contents"
  then show "getMultiAddrFromLogFile (Inr contents)
          = Inl (Errorf (''did not find peer text in '' @ contents))"
    by (rule getMultiAddr_not_found)
next
  assume "(\<forall>j<length pre'. \<not> prefix searchText (drop j (pre' @ searchText @ rest')))
      \<and> dquote \<notin> set rest'"
  then have first: "\<forall>j<length pre'. \<not> prefix searchText (drop j (pre' @ searchText @ rest'))"
    and rest: "dquote \<notin> set rest'" by blast+
  from getMultiAddr_first [OF first] rest
  show "getMultiAddrFromLogFile (Inr (pre' @ searchText @ rest'))
          = Inl (Errorf (''did not find peer text in '' @ pre' @ searchText @ rest'))"
    by simp
qed

lemma started_line_index:
  "strings_Index (''level=info msg='' @ searchText @ tail) searchText = int (length ''level=info msg='')"
  by (simp add: searchText_def dquote_def)

theorem getMultiAddrFromLogFile_extracts_witness:
  "getMultiAddrFromLogFile (Inr (started_line ''/ip4/127.0.0.1/tcp/13000''))
     = Inr ''/ip4/127.0.0.1/tcp/13000''
   \<and> \<not> sublist searchText ''level=info msg=starting''
   \<and> getMultiAddrFromLogFile (Inr ''level=info msg=starting'')
     = Inl (Errorf ''did not find peer text in level=info msg=starting'')
   \<and> dquote \<notin> set ''/ip4/127.0.0.1/tcp''
   \<and> getMultiAddrFromLogFile (Inr (''level=info msg='' @ searchText @ ''/ip4/127.0.0.1/tcp''))
     = Inl (Errorf (''did not find peer text in level=info msg='' @ searchText @ ''/ip4/127.0.0.1/tcp''))"
proof -
  have line: "started_line ''/ip4/127.0.0.1/tcp/13000''
      = ''level=info msg='' @ searchText @ ''/ip4/127.0.0.1/tcp/13000'' @ [dquote]
        @ ('' prefix=p2p'' @ [newline])"
    by (simp add: started_line_def searchText_def)
  have h1: "\<forall>j<length ''level=info msg=''. \<not> prefix searchText
      (drop j (''level=info msg='' @ searchText @ ''/ip4/127.0.0.1/tcp/13000'' @ [dquote]
        @ ('' prefix=p2p'' @ [newline])))"
    by (rule no_earlier_prefix) (rule started_line_index)
  have h2: "dquote \<notin> set ''/ip4/127.0.0.1/tcp/13000''" by (simp add: dquote_def)
  have h3: "\<not> sublist searchText ''level=info msg=starting''"
    by (simp add: searchText_def dquote_def sublist_code)
  have h4: "\<forall>j<length ''level=info msg=''. \<not> prefix searchText
      (drop j (''level=info msg='' @ searchText @ ''/ip4/127.0.0.1/tcp''))"
    by (rule no_earlier_prefix) (rule started_line_index)
  have h5: "dquote \<notin> set ''/ip4/127.0.0.1/tcp''" by (simp add: dquote_def)
  from getMultiAddrFromLogFile_extracts [of "''level=info msg=''" "''/ip4/127.0.0.1/tcp/13000''"
      "'' prefix=p2p'' @ [newline]" "''level=info msg=starting''" "''level=info msg=''"
      "''/ip4/127.0.0.1/tcp''"] h1 h2 h3 h4 h5
  have "getMultiAddrFromLogFile (Inr (''level=info msg='' @ searchText @ ''/ip4/127.0.0.1/tcp/13000''
          @ [dquote] @ ('' prefix=p2p'' @ [newline]))) = Inr ''/ip4/127.0.0.1/tcp/13000''"
    and "getMultiAddrFromLogFile (Inr ''level=info msg=starting'')
          = Inl (Errorf (''did not find peer text in '' @ ''level=info msg=starting''))"
    and "getMultiAddrFromLogFile (Inr (''level=info msg='' @ searchText @ ''/ip4/127.0.0.1/tcp''))
          = Inl (Errorf (''did not find peer text in '' @ ''level=info msg='' @ searchText
                         @ ''/ip4/127.0.0.1/tcp''))"
    by blast+
  with line h3 h5 show ?thesis by simp
qed

lemma add_peers_eq:
  "p \<le> index \<Longrightarrow> index \<le> length beaconNodes \<Longrightarrow>
   add_peers beaconNodes index p args
     = args @ map (\<lambda>n. ''--peer='' @ multiAddr n) (drop p (take index beaconNodes))"
proof (induction beaconNodes index p args rule: add_peers.induct)
  case (1 beaconNodes index p args)
  show ?case
  proof (cases "p < index")
    case False
    with "1.prems" show ?thesis by (subst add_peers.simps) simp
  next
    case True
    with "1.prems" have p: "p < length (take index beaconNodes)" by simp
    have "drop p (take index beaconNodes)
          = take index beaconNodes ! p # drop (Suc p) (take index beaconNodes)"
      using p by (rule Cons_nth_drop_Suc [symmetric])
    moreover have "take index beaconNodes ! p = beaconNodes ! p" using True by simp
    ultimately show ?thesis
      using True "1.prems" "1.IH" by (subst add_peers.simps) simp
  qed
qed

lemma node_args_eq:
  "node_args config ns =
     initial_args config (length ns)
     @ (if minimalConfig config then [''--minimal-config''] else [])
     @ (if enableSSZCache config then [''--enable-ssz-cache''] else [])
     @ map (\<lambda>n. ''--peer='' @ multiAddr n) ns"
proof (cases "ns = []")
  case True
  then show ?thesis by (simp add: node_args_def)
next
  case False
  then have "1 \<le> length ns" by (cases ns) auto
  then show ?thesis by (simp add: node_args_def Let_def add_peers_eq)
qed

lemma port_values_node_args:
  "port_values (node_args config ns) = map (\<lambda>p. Some (decimal p)) (node_ports (length ns))"
  by (simp add: port_values_def flag_value_def node_args_eq initial_args_def filter_map o_def
      node_ports_def)

lemma startNewBeaconNode_ok:
  assumes "node_ok (w (length ns))"
  shows "snd (startNewBeaconNode w config ns h) = Inr (node_record config (w (length ns)) (length ns))"
    and "commands (fst (startNewBeaconNode w config ns h))
         = commands h @ [(fst (findBinary (w (length ns))), node_args config ns)]"
  using assms
  by (auto simp: startNewBeaconNode_def node_ok_def node_record_def Let_def
      split: option.splits sum.splits)

lemma startNewBeaconNode_bad:
  assumes "\<not> node_ok (w (length ns))"
  shows "isl (snd (startNewBeaconNode w config ns h))"
    and "commands (fst (startNewBeaconNode w config ns h)) = commands h
         \<or> commands (fst (startNewBeaconNode w config ns h))
           = commands h @ [(fst (findBinary (w (length ns))), node_args config ns)]"
  using assms
  by (auto simp: startNewBeaconNode_def node_ok_def Let_def
      split: option.splits sum.splits)

lemma startNewBeaconNode_commands:
  "commands (fst (startNewBeaconNode w config ns h))
     = (if snd (findBinary (w (length ns))) \<and> createFile (w (length ns)) = None
        then commands h @ [(fst (findBinary (w (length ns))), node_args config ns)]
        else commands h)"
  by (auto simp: startNewBeaconNode_def Let_def split: option.splits sum.splits)

lemma registry_upto_Suc:
  "registry_upto w config (Suc k) = registry_upto w config k @ [node_record config (w k) k]"
  by (simp add: registry_upto_def)

lemma length_registry_upto [simp]: "length (registry_upto w config k) = k"
  by (simp add: registry_upto_def)

lemma start_loop_run:
  "i \<le> N \<Longrightarrow> loop_inv w config i ns h \<Longrightarrow>
   \<exists>k\<ge>i. run_outcome w config N k (start_loop w config N i ns h)"
proof (induction "N - i" arbitrary: i ns h rule: less_induct)
  case less
  from less.prems(2) have ns: "ns = registry_upto w config i"
    and oks: "\<forall>j<i. node_ok (w j)" and len: "length (commands h) = i"
    and cmds: "\<forall>j<i. snd (commands h ! j) = node_args config (registry_upto w config j)"
    by (simp_all add: loop_inv_def)
  have lenns: "length ns = i" by (simp add: ns)
  show ?case
  proof (cases "i < N")
    case False
    with less.prems(1) have "i = N" by simp
    moreover have "start_loop w config N i ns h = (h, ns, None)"
      using False by (subst start_loop.simps) simp
    ultimately have "run_outcome w config N i (start_loop w config N i ns h)"
      using ns oks len cmds by (simp add: run_outcome_def)
    then show ?thesis by blast
  next
    case lt: True
    obtain h' res where step: "startNewBeaconNode w config ns h = (h', res)"
      by (cases "startNewBeaconNode w config ns h")
    show ?thesis
    proof (cases "node_ok (w i)")
      case False
      with lenns have bad: "\<not> node_ok (w (length ns))" by simp
      from startNewBeaconNode_bad [where w = w and ns = ns and config = config and h = h, OF bad] step
      obtain fatal where res: "res = Inl fatal"
        and c: "commands h' = commands h
                \<or> commands h' = commands h @ [(fst (findBinary (w (length ns))), node_args config ns)]"
        by (cases res) auto
      have run: "start_loop w config N i ns h = (h', ns, Some fatal)"
        using lt step res by (subst start_loop.simps) simp
      have "\<forall>j<length (commands h'). snd (commands h' ! j) = node_args config (registry_upto w config j)"
      proof (intro allI impI)
        fix j assume j: "j < length (commands h')"
        show "snd (commands h' ! j) = node_args config (registry_upto w config j)"
        proof (cases "j < i")
          case True
          with c cmds len show ?thesis by (auto simp: nth_append)
        next
          case False
          with j c len have "j = i"
            and "commands h' = commands h @ [(fst (findBinary (w (length ns))), node_args config ns)]"
            by auto
          with len ns show ?thesis by (simp add: nth_append)
        qed
      qed
      moreover have "i \<le> length (commands h') \<and> length (commands h') \<le> i + 1"
        using c len by auto
      moreover have "length (commands h')
          = (if snd (findBinary (w i)) \<and> createFile (w i) = None then i + 1 else i)"
        using startNewBeaconNode_commands [of w config ns h] step lenns len
        by (simp split: if_splits)
      ultimately have "run_outcome w config N i (start_loop w config N i ns h)"
        using run lt False ns oks by (simp add: run_outcome_def)
      then show ?thesis by blast
    next
      case True
      with lenns have ok: "node_ok (w (length ns))" by simp
      from startNewBeaconNode_ok [where w = w and ns = ns and config = config and h = h, OF ok] step lenns
      have res: "res = Inr (node_record config (w i) i)"
        and c: "commands h' = commands h @ [(fst (findBinary (w i)), node_args config ns)]"
        by auto
      have run: "start_loop w config N i ns h
                 = start_loop w config N (i + 1) (ns @ [node_record config (w i) i]) h'"
        using lt step res by (subst start_loop.simps) simp
      have inv: "loop_inv w config (i + 1) (ns @ [node_record config (w i) i]) h'"
        unfolding loop_inv_def
      proof (intro conjI allI impI)
        show "ns @ [node_record config (w i) i] = registry_upto w config (i + 1)"
          by (simp add: ns registry_upto_Suc)
        show "node_ok (w j)" if "j < i + 1" for j
          using that oks True by (cases "j = i") auto
        show "length (commands h') = i + 1" using c len by simp
        show "snd (commands h' ! j) = node_args config (registry_upto w config j)"
          if "j < i + 1" for j
        proof (cases "j = i")
          case True
          with c len ns show ?thesis by (simp add: nth_append)
        next
          case False
          with that have "j < i" by simp
          with c cmds len show ?thesis by (simp add: nth_append)
        qed
      qed
      have "N - (i + 1) < N - i" and "i + 1 \<le> N" using lt by simp_all
      from less.hyps [OF this inv]
      obtain k where "k \<ge> i + 1"
        and "run_outcome w config N k
               (start_loop w config N (i + 1) (ns @ [node_record config (w i) i]) h')"
        by blast
      with run have "k \<ge> i" and "run_outcome w config N k (start_loop w config N i ns h)"
        by simp_all
      then show ?thesis by blast
    qed
  qed
qed

lemma startBeaconNodes_run:
  "\<exists>k. run_outcome w config (numBeaconNodes config) k (startBeaconNodes w config)"
proof -
  have "loop_inv w config 0 [] \<lparr>testLog = [], commands = []\<rparr>"
    by (simp add: loop_inv_def registry_upto_def)
  from start_loop_run [OF _ this, of "numBeaconNodes config"]
  show ?thesis by (auto simp: startBeaconNodes_def)
qed

lemma run_all_ok:
  assumes "\<forall>i<numBeaconNodes config. node_ok (w i)"
  shows "run_outcome w config (numBeaconNodes config) (numBeaconNodes config)
           (startBeaconNodes w config)"
    and "snd (snd (startBeaconNodes w config)) = None"
proof -
  obtain k where k: "run_outcome w config (numBeaconNodes config) k (startBeaconNodes w config)"
    using startBeaconNodes_run by blast
  show none: "snd (snd (startBeaconNodes w config)) = None"
  proof (rule ccontr)
    assume "snd (snd (startBeaconNodes w config)) \<noteq> None"
    with k have "k < numBeaconNodes config" and "\<not> node_ok (w k)"
      by (simp_all add: run_outcome_def)
    with assms show False by simp
  qed
  with k have "k = numBeaconNodes config" by (simp add: run_outcome_def)
  with k show "run_outcome w config (numBeaconNodes config) (numBeaconNodes config)
           (startBeaconNodes w config)" by simp
qed

lemma run_first_bad:
  assumes "k < numBeaconNodes config" and "\<forall>j<k. node_ok (w j)" and "\<not> node_ok (w k)"
  shows "run_outcome w config (numBeaconNodes config) k (startBeaconNodes w config)"
    and "snd (snd (startBeaconNodes w config)) \<noteq> None"
proof -
  obtain m where m: "run_outcome w config (numBeaconNodes config) m (startBeaconNodes w config)"
    using startBeaconNodes_run by blast
  then have oks: "\<forall>j<m. node_ok (w j)" by (simp add: run_outcome_def)
  show some: "snd (snd (startBeaconNodes w config)) \<noteq> None"
  proof
    assume "snd (snd (startBeaconNodes w config)) = None"
    with m have "m = numBeaconNodes config" by (simp add: run_outcome_def)
    with oks assms(1,3) show False by simp
  qed
  with m have bad: "\<not> node_ok (w m)" by (simp add: run_outcome_def)
  have "m = k"
  proof (rule linorder_cases [of m k])
    assume "m < k"
    with assms(2) bad show ?thesis by simp
  next
    assume "k < m"
    with oks assms(3) show ?thesis by simp
  qed simp
  with m show "run_outcome w config (numBeaconNodes config) k (startBeaconNodes w config)"
    by simp
qed

lemma take_registry_upto: "i \<le> k \<Longrightarrow> take i (registry_upto w config k) = registry_upto w config i"
  by (simp add: registry_upto_def take_map)

lemma run_command_args:
  assumes "i < length (commands (fst (startBeaconNodes w config)))"
  shows "snd (commands (fst (startBeaconNodes w config)) ! i)
         = node_args config (take i (fst (snd (startBeaconNodes w config))))"
    and "length (take i (fst (snd (startBeaconNodes w config)))) = i"
proof -
  obtain k where k: "run_outcome w config (numBeaconNodes config) k (startBeaconNodes w config)"
    using startBeaconNodes_run by blast
  have "i \<le> k"
  proof (cases "snd (snd (startBeaconNodes w config)) = None")
    case True
    with k assms show ?thesis by (simp add: run_outcome_def)
  next
    case False
    with k have "length (commands (fst (startBeaconNodes w config))) \<le> k + 1"
      by (simp add: run_outcome_def)
    with assms show ?thesis by simp
  qed
  with k have t: "take i (fst (snd (startBeaconNodes w config))) = registry_upto w config i"
    by (simp add: run_outcome_def take_registry_upto)
  from k assms t show "snd (commands (fst (startBeaconNodes w config)) ! i)
         = node_args config (take i (fst (snd (startBeaconNodes w config))))"
    by (simp add: run_outcome_def)
  from t show "length (take i (fst (snd (startBeaconNodes w config)))) = i"
    by (simp del: length_take)
qed

lemma run_registry:
  "\<exists>k\<le>numBeaconNodes config. fst (snd (startBeaconNodes w config)) = registry_upto w config k
     \<and> (\<forall>j<k. node_ok (w j))"
  using startBeaconNodes_run [of w config] by (auto simp: run_outcome_def)

lemma node_ok_addr:
  "node_ok env \<Longrightarrow>
   getMultiAddrFromLogFile (logFileRead env) = Inr (projr (getMultiAddrFromLogFile (logFileRead env)))"
  by (cases "getMultiAddrFromLogFile (logFileRead env)") (auto simp: node_ok_def)

lemma node_ok_pid: "node_ok env \<Longrightarrow> startProcess env = Inr (projr (startProcess env))"
  by (cases "startProcess env") (auto simp: node_ok_def)

subsection \<open>The example runs\<close>

lemma constant_log_ready:
  assumes "poll_hit (FileData c None) text"
  shows "fst (waitForTextInFile (constant_log c) text) = None"
proof -
  have "wait_loop (constant_log c) text 0 0 = (None, 0 + 2)"
    using assms by (intro wait_loop_hit) (simp_all add: maxWait_def constant_log_def)
  then show ?thesis by (simp add: waitForTextInFile_def)
qed

lemma getMultiAddr_started_line:
  assumes "dquote \<notin> set addr"
  shows "getMultiAddrFromLogFile (Inr (started_line addr)) = Inr addr"
proof -
  have line: "started_line addr
      = ''level=info msg='' @ searchText @ (addr @ [dquote] @ '' prefix=p2p'' @ [newline])"
    by (simp add: started_line_def searchText_def)
  have "\<forall>j<length ''level=info msg=''. \<not> prefix searchText
      (drop j (''level=info msg='' @ searchText @ (addr @ [dquote] @ '' prefix=p2p'' @ [newline])))"
    by (rule no_earlier_prefix) (rule started_line_index)
  from getMultiAddr_first [OF this] assms show ?thesis
    unfolding line by (subst (asm) takeWhile_append2) auto
qed

lemma ready_env_ok:
  assumes "poll_hit (FileData (started_line addr) None) ''Node started p2p server''"
    and "dquote \<notin> set addr"
  shows "node_ok (ready_env addr)"
  using constant_log_ready [OF assms(1)] getMultiAddr_started_line [OF assms(2)]
  by (simp add: node_ok_def ready_env_def)

lemma local_world_ok: "node_ok (local_world i)"
proof -
  have "node_ok (ready_env ''/ip4/127.0.0.1/tcp/13000'')"
    by (rule ready_env_ok) (simp_all add: poll_hit_def started_line_def go_eval)
  moreover have "node_ok (ready_env ''/ip4/127.0.0.1/tcp/13001'')"
    by (rule ready_env_ok) (simp_all add: poll_hit_def started_line_def go_eval)
  moreover have "node_ok (ready_env ''/ip4/127.0.0.1/tcp/13002'')"
    by (rule ready_env_ok) (simp_all add: poll_hit_def started_line_def go_eval)
  ultimately show ?thesis by (simp add: local_world_def)
qed

lemma blank_world_ok: "node_ok (blank_world i)"
  unfolding blank_world_def
  by (rule ready_env_ok) (simp_all add: poll_hit_def started_line_def go_eval)

lemma stuck_world_bad: "\<not> node_ok (stuck_world 1)"
proof -
  have "\<forall>k\<in>{1..18}. poll_miss (poll_at stuck_log (2 * k)) ''Node started p2p server''"
    by (simp add: stuck_log_def poll_miss_def go_eval)
  then have "fst (waitForTextInFile stuck_log ''Node started p2p server'') \<noteq> None"
    by (simp add: waitForTextInFile_all_miss)
  then show ?thesis by (simp add: node_ok_def stuck_world_def)
qed

lemma stuck_world_0: "node_ok (stuck_world 0)"
  using local_world_ok [of 0] by (simp add: stuck_world_def)

lemma local_world_addr:
  "projr (getMultiAddrFromLogFile (logFileRead (local_world i)))
     = (if i = 0 then ''/ip4/127.0.0.1/tcp/13000''
        else if i = 1 then ''/ip4/127.0.0.1/tcp/13001''
        else ''/ip4/127.0.0.1/tcp/13002'')"
  by (simp add: local_world_def ready_env_def getMultiAddr_started_line dquote_def)

lemma local_world_pid: "projr (startProcess (local_world i)) = 4242"
  by (simp add: local_world_def ready_env_def)

section \<open>The orchestration loop\<close>

text \<open>
  Claim C3. When every step of starting each of the \<open>numBeaconNodes\<close> nodes succeeds,
  \<open>startBeaconNodes\<close> returns (no \<open>t.Fatal\<close>) a slice of exactly \<open>numBeaconNodes\<close> records,
  the record at place \<open>i\<close> holding the data directory, the ports, the process and the
  address of node \<open>i\<close>, in the order \<open>0, 1, ...\<close> in which the nodes were started.
\<close>

theorem startBeaconNodes_registry:
  assumes "\<forall>i<numBeaconNodes config. node_ok (w i)"
  shows "snd (snd (startBeaconNodes w config)) = None
     \<and> length (fst (snd (startBeaconNodes w config))) = numBeaconNodes config
     \<and> fst (snd (startBeaconNodes w config))
       = map (\<lambda>i. \<lparr> processID = projr (startProcess (w i)),
                     datadir = tmpPath config @ ''/eth2-beacon-node-'' @ decimal i,
                     rpcPort = 4000 + i,
                     monitorPort = 8080 + i,
                     grpcPort = 3200 + i,
                     multiAddr = projr (getMultiAddrFromLogFile (logFileRead (w i))) \<rparr>)
           [0..<numBeaconNodes config]"
proof -
  from run_all_ok [OF assms]
  have "fst (snd (startBeaconNodes w config)) = registry_upto w config (numBeaconNodes config)"
    and none: "snd (snd (startBeaconNodes w config)) = None"
    by (simp_all add: run_outcome_def)
  then show ?thesis by (simp add: registry_upto_def node_record_def)
qed

lemma decimal_small: "n < 10 \<Longrightarrow> decimal n = [digit n]"
  by (subst decimal.simps) simp

theorem startBeaconNodes_registry_witness:
  "list_all (\<lambda>i. node_ok (local_world i)) [0..<numBeaconNodes (test_config 3)]
   \<and> snd (snd (startBeaconNodes local_world (test_config 3))) = None
   \<and> fst (snd (startBeaconNodes local_world (test_config 3)))
     = [\<lparr> processID = 4242, datadir = ''/tmp/e2e/eth2-beacon-node-0'', rpcPort = 4000,
          monitorPort = 8080, grpcPort = 3200, multiAddr = ''/ip4/127.0.0.1/tcp/13000'' \<rparr>,
        \<lparr> processID = 4242, datadir = ''/tmp/e2e/eth2-beacon-node-1'', rpcPort = 4001,
          monitorPort = 8081, grpcPort = 3201, multiAddr = ''/ip4/127.0.0.1/tcp/13001'' \<rparr>,
        \<lparr> processID = 4242, datadir = ''/tmp/e2e/eth2-beacon-node-2'', rpcPort = 4002,
          monitorPort = 8082, grpcPort = 3202, multiAddr = ''/ip4/127.0.0.1/tcp/13002'' \<rparr>]"
proof -
  have h: "\<forall>i<numBeaconNodes (test_config 3). node_ok (local_world i)"
    by (simp add: local_world_ok)
  have n: "[0..<numBeaconNodes (test_config 3)] = [0, 1, 2]"
    by (simp add: test_config_def upt_rec)
  from startBeaconNodes_registry [OF h] n show ?thesis
    by (simp add: local_world_ok local_world_addr local_world_pid decimal_small digit_def
        test_config_def)
qed

text \<open>
  Claim C2. In every run, the arguments of the command started for node \<open>i\<close> hold exactly
  \<open>i\<close> arguments that start with \<open>--peer=\<close>: the flags of the addresses of the records
  \<open>0, ..., i - 1\<close> of the registry, in the order of the registry. For node 0 there is none.
\<close>

theorem peer_flags_of_node:
  assumes "i < length (commands (fst (startBeaconNodes w config)))"
  shows "filter (prefix ''--peer='') (snd (commands (fst (startBeaconNodes w config)) ! i))
           = map (\<lambda>n. ''--peer='' @ multiAddr n) (take i (fst (snd (startBeaconNodes w config))))
         \<and> length (filter (prefix ''--peer='')
                     (snd (commands (fst (startBeaconNodes w config)) ! i))) = i"
proof -
  have "filter (prefix ''--peer='') (node_args config ns) = map (\<lambda>n. ''--peer='' @ multiAddr n) ns"
    for ns
    by (simp add: node_args_eq initial_args_def filter_map o_def)
  with run_command_args [OF assms] show ?thesis by (simp del: length_take)
qed

lemma local_run_3:
  "length (commands (fst (startBeaconNodes local_world (test_config 3)))) = 3"
  "fst (snd (startBeaconNodes local_world (test_config 3))) = registry_upto local_world (test_config 3) 3"
proof -
  have "\<forall>i<numBeaconNodes (test_config 3). node_ok (local_world i)"
    by (simp add: local_world_ok)
  from run_all_ok(1) [OF this]
  show "length (commands (fst (startBeaconNodes local_world (test_config 3)))) = 3"
    and "fst (snd (startBeaconNodes local_world (test_config 3))) = registry_upto local_world (test_config 3) 3"
    by (simp_all add: run_outcome_def test_config_def)
qed

lemma registry_upto_3:
  "registry_upto w config 3 = [node_record config (w 0) 0, node_record config (w 1) 1,
     node_record config (w 2) 2]"
  by (simp add: registry_upto_def upt_rec numeral_2_eq_2)

theorem peer_flags_of_node_witness:
  "2 < length (commands (fst (startBeaconNodes local_world (test_config 3))))
   \<and> filter (prefix ''--peer='') (snd (commands (fst (startBeaconNodes local_world (test_config 3))) ! 2))
     = [''--peer=/ip4/127.0.0.1/tcp/13000'', ''--peer=/ip4/127.0.0.1/tcp/13001'']"
proof -
  have h: "2 < length (commands (fst (startBeaconNodes local_world (test_config 3))))"
    by (simp add: local_run_3)
  from peer_flags_of_node [OF h] h show ?thesis
    by (simp add: local_run_3 registry_upto_3 node_record_def local_world_addr)
qed

text \<open>
  Claim C6. In every run, whether it returns or is ended by \<open>t.Fatal\<close>, each record of the
  registry belongs to a node for which \<open>waitForTextInFile\<close> returned nil and
  \<open>getMultiAddrFromLogFile\<close> then returned an address without error, and that address is
  the record's \<open>multiAddr\<close>: no record is appended before both have succeeded.
\<close>

theorem registry_record_confirmed:
  assumes "i < length (fst (snd (startBeaconNodes w config)))"
  shows "fst (waitForTextInFile (stdOutFile (w i)) ''Node started p2p server'') = None
     \<and> getMultiAddrFromLogFile (logFileRead (w i))
       = Inr (multiAddr (fst (snd (startBeaconNodes w config)) ! i))"
proof -
  obtain k where reg: "fst (snd (startBeaconNodes w config)) = registry_upto w config k"
    and oks: "\<forall>j<k. node_ok (w j)"
    using run_registry [of config w] by blast
  from assms reg have "i < k" by simp
  with oks have ok: "node_ok (w i)" by simp
  from \<open>i < k\<close> have "registry_upto w config k ! i = node_record config (w i) i"
    by (simp add: registry_upto_def)
  with reg node_ok_addr [OF ok] ok show ?thesis
    by (simp add: node_record_def node_ok_def)
qed

lemma stuck_run:
  "snd (snd (startBeaconNodes stuck_world (test_config 3))) \<noteq> None"
  "fst (snd (startBeaconNodes stuck_world (test_config 3))) = [node_record (test_config 3) (stuck_world 0) 0]"
  "length (commands (fst (startBeaconNodes stuck_world (test_config 3)))) \<le> 2"
proof -
  have "1 < numBeaconNodes (test_config 3)" by (simp add: test_config_def)
  moreover have "\<forall>j<1. node_ok (stuck_world j)" by (simp add: stuck_world_0)
  ultimately have "run_outcome stuck_world (test_config 3) (numBeaconNodes (test_config 3)) 1
      (startBeaconNodes stuck_world (test_config 3))"
    and some: "snd (snd (startBeaconNodes stuck_world (test_config 3))) \<noteq> None"
    using stuck_world_bad by (rule run_first_bad)+
  then show "snd (snd (startBeaconNodes stuck_world (test_config 3))) \<noteq> None"
    and "fst (snd (startBeaconNodes stuck_world (test_config 3))) = [node_record (test_config 3) (stuck_world 0) 0]"
    and "length (commands (fst (startBeaconNodes stuck_world (test_config 3)))) \<le> 2"
    by (simp_all add: run_outcome_def registry_upto_def)
qed

theorem registry_record_confirmed_witness:
  "0 < length (fst (snd (startBeaconNodes stuck_world (test_config 3))))
   \<and> length (fst (snd (startBeaconNodes stuck_world (test_config 3)))) = 1
   \<and> fst (waitForTextInFile (stdOutFile (stuck_world 0)) ''Node started p2p server'') = None
   \<and> getMultiAddrFromLogFile (logFileRead (stuck_world 0)) = Inr ''/ip4/127.0.0.1/tcp/13000''
   \<and> multiAddr (fst (snd (startBeaconNodes stuck_world (test_config 3))) ! 0)
     = ''/ip4/127.0.0.1/tcp/13000''"
proof -
  have h: "0 < length (fst (snd (startBeaconNodes stuck_world (test_config 3))))"
    by (simp add: stuck_run)
  have a: "multiAddr (fst (snd (startBeaconNodes stuck_world (test_config 3))) ! 0)
     = ''/ip4/127.0.0.1/tcp/13000''"
    using local_world_addr [of 0] by (simp add: stuck_run node_record_def stuck_world_def)
  from registry_record_confirmed [OF h] h a show ?thesis
    by (simp add: stuck_run)
qed

text \<open>
  Claim C8. When node \<open>k\<close> is the first node for which a step of starting it fails (the
  binary is not found, the log file or the process cannot be created, the marker does not
  appear in time, or the address cannot be read), the run is ended by \<open>t.Fatal\<close>: the
  registry holds the \<open>k\<close> records of the nodes before it and nothing more, and no command
  is started for a later node. The commands started are those of the nodes before \<open>k\<close>
  and, only when the binary was found and the log file created, the one command of node
  \<open>k\<close>: exactly \<open>k + 1\<close> commands then, and exactly \<open>k\<close> otherwise.
\<close>

theorem failed_node_aborts_run:
  assumes "k < numBeaconNodes config" and "\<forall>j<k. node_ok (w j)" and "\<not> node_ok (w k)"
  shows "snd (snd (startBeaconNodes w config)) \<noteq> None
     \<and> length (fst (snd (startBeaconNodes w config))) = k
     \<and> fst (snd (startBeaconNodes w config))
       = map (\<lambda>i. \<lparr> processID = projr (startProcess (w i)),
                     datadir = tmpPath config @ ''/eth2-beacon-node-'' @ decimal i,
                     rpcPort = 4000 + i,
                     monitorPort = 8080 + i,
                     grpcPort = 3200 + i,
                     multiAddr = projr (getMultiAddrFromLogFile (logFileRead (w i))) \<rparr>)
           [0..<k]
     \<and> length (commands (fst (startBeaconNodes w config)))
       = (if snd (findBinary (w k)) \<and> createFile (w k) = None then k + 1 else k)
     \<and> map snd (commands (fst (startBeaconNodes w config)))
       = map (\<lambda>i. node_args config (take i (fst (snd (startBeaconNodes w config)))))
           [0..<length (commands (fst (startBeaconNodes w config)))]"
proof -
  let ?r = "startBeaconNodes w config"
  from run_first_bad [OF assms]
  have out: "run_outcome w config (numBeaconNodes config) k ?r"
    and some: "snd (snd ?r) \<noteq> None" .
  from out some have reg: "fst (snd ?r) = registry_upto w config k"
    and cnt: "length (commands (fst ?r))
              = (if snd (findBinary (w k)) \<and> createFile (w k) = None then k + 1 else k)"
    by (simp_all add: run_outcome_def)
  have args: "map snd (commands (fst ?r))
       = map (\<lambda>i. node_args config (take i (fst (snd ?r)))) [0..<length (commands (fst ?r))]"
    by (rule nth_equalityI) (simp_all add: run_command_args(1))
  from some reg cnt args show ?thesis
    by (simp add: registry_upto_def node_record_def)
qed

lemma missing_binary_world_0: "node_ok (missing_binary_world 0)"
  using local_world_ok [of 0] by (simp add: missing_binary_world_def)

lemma missing_binary_world_bad: "\<not> node_ok (missing_binary_world 1)"
  by (simp add: missing_binary_world_def node_ok_def)

theorem failed_node_aborts_run_witness:
  "1 < numBeaconNodes (test_config 3)
   \<and> node_ok (stuck_world 0)
   \<and> \<not> node_ok (stuck_world 1)
   \<and> snd (snd (startBeaconNodes stuck_world (test_config 3))) \<noteq> None
   \<and> length (fst (snd (startBeaconNodes stuck_world (test_config 3)))) = 1
   \<and> length (commands (fst (startBeaconNodes stuck_world (test_config 3)))) = 2
   \<and> node_ok (missing_binary_world 0)
   \<and> \<not> node_ok (missing_binary_world 1)
   \<and> snd (snd (startBeaconNodes missing_binary_world (test_config 3))) \<noteq> None
   \<and> length (fst (snd (startBeaconNodes missing_binary_world (test_config 3)))) = 1
   \<and> length (commands (fst (startBeaconNodes missing_binary_world (test_config 3)))) = 1"
proof -
  have h1: "1 < numBeaconNodes (test_config 3)" by (simp add: test_config_def)
  have h2: "\<forall>j<1. node_ok (stuck_world j)" by (simp add: stuck_world_0)
  have h3: "\<forall>j<1. node_ok (missing_binary_world j)" by (simp add: missing_binary_world_0)
  have s: "snd (findBinary (stuck_world 1)) \<and> createFile (stuck_world 1) = None"
    by (simp add: stuck_world_def local_world_def ready_env_def)
  have m: "\<not> snd (findBinary (missing_binary_world 1))"
    by (simp add: missing_binary_world_def)
  from failed_node_aborts_run [OF h1 h2 stuck_world_bad]
  have a: "snd (snd (startBeaconNodes stuck_world (test_config 3))) \<noteq> None"
    and b: "length (fst (snd (startBeaconNodes stuck_world (test_config 3)))) = 1"
    and c: "length (commands (fst (startBeaconNodes stuck_world (test_config 3)))) = 2"
    using s by simp_all
  from failed_node_aborts_run [OF h1 h3 missing_binary_world_bad]
  have a': "snd (snd (startBeaconNodes missing_binary_world (test_config 3))) \<noteq> None"
    and b': "length (fst (snd (startBeaconNodes missing_binary_world (test_config 3)))) = 1"
    and c': "length (commands (fst (startBeaconNodes missing_binary_world (test_config 3)))) = 1"
    using m by simp_all
  from h1 stuck_world_0 stuck_world_bad a b c missing_binary_world_0 missing_binary_world_bad a' b' c'
  show ?thesis by simp
qed

section \<open>Ports\<close>

lemma digit_inj: "a < 10 \<Longrightarrow> b < 10 \<Longrightarrow> digit a = digit b \<Longrightarrow> a = b"
proof -
  assume a: "a < 10" and b: "b < 10" and eq: "digit a = digit b"
  have d: "distinct ''0123456789''" by simp
  from a b have "a < length ''0123456789''" "b < length ''0123456789''" by simp_all
  with d eq show "a = b" unfolding digit_def by (simp only: nth_eq_iff_index_eq)
qed

lemma decimal_large: "\<not> n < 10 \<Longrightarrow> decimal n = decimal (n div 10) @ [digit (n mod 10)]"
  by (subst decimal.simps) simp

lemma decimal_nonempty: "decimal n \<noteq> []"
  by (subst decimal.simps) simp

lemma decimal_inj: "decimal n = decimal m \<Longrightarrow> n = m"
proof (induction n arbitrary: m rule: decimal.induct)
  case (1 n)
  show ?case
  proof (cases "n < 10")
    case n: True
    show ?thesis
    proof (cases "m < 10")
      case True
      with n "1.prems" show ?thesis by (simp add: decimal_small digit_inj)
    next
      case False
      with n "1.prems" decimal_nonempty [of "m div 10"] show ?thesis
        by (simp add: decimal_small decimal_large)
    qed
  next
    case n: False
    show ?thesis
    proof (cases "m < 10")
      case True
      with n "1.prems" decimal_nonempty [of "n div 10"] show ?thesis
        by (simp add: decimal_small decimal_large)
    next
      case False
      with n "1.prems" have "decimal (n div 10) = decimal (m div 10)"
        and "digit (n mod 10) = digit (m mod 10)"
        by (simp_all add: decimal_large)
      with n "1.IH" have "n div 10 = m div 10" and "n mod 10 = m mod 10"
        by (auto intro: digit_inj)
      then show ?thesis by (metis div_mult_mod_eq)
    qed
  qed
qed

lemma node_ports_disjoint:
  "i < 800 \<Longrightarrow> j < 800 \<Longrightarrow> i \<noteq> j \<Longrightarrow> set (node_ports i) \<inter> set (node_ports j) = {}"
  by (auto simp: node_ports_def)

lemma node_ports_distinct: "distinct (node_ports i)"
  by (simp add: node_ports_def)

lemma run_commands_le:
  "length (commands (fst (startBeaconNodes w config))) \<le> numBeaconNodes config"
proof -
  obtain k where k: "run_outcome w config (numBeaconNodes config) k (startBeaconNodes w config)"
    using startBeaconNodes_run by blast
  show ?thesis
  proof (cases "snd (snd (startBeaconNodes w config)) = None")
    case True
    with k show ?thesis by (simp add: run_outcome_def)
  next
    case False
    with k have "k < numBeaconNodes config"
      and "length (commands (fst (startBeaconNodes w config))) \<le> k + 1"
      by (simp_all add: run_outcome_def)
    then show ?thesis by simp
  qed
qed

lemma run_port_values:
  assumes "i < length (commands (fst (startBeaconNodes w config)))"
  shows "port_values (snd (commands (fst (startBeaconNodes w config)) ! i))
         = map (\<lambda>p. Some (decimal p)) (node_ports i)"
  using run_command_args [OF assms] by (simp add: port_values_node_args del: length_take)

text \<open>
  Claim C4, as amended. In every run of at most 800 nodes, the values of the five port
  flags in the commands of two different nodes have no value in common, and the five
  values of one node are different from one another.
\<close>

theorem ports_distinct_upto_800:
  assumes "numBeaconNodes config \<le> 800"
    and "i < length (commands (fst (startBeaconNodes w config)))"
    and "j < length (commands (fst (startBeaconNodes w config)))"
    and "i \<noteq> j"
  shows "set (port_values (snd (commands (fst (startBeaconNodes w config)) ! i)))
           \<inter> set (port_values (snd (commands (fst (startBeaconNodes w config)) ! j))) = {}
         \<and> distinct (port_values (snd (commands (fst (startBeaconNodes w config)) ! i)))
         \<and> None \<notin> set (port_values (snd (commands (fst (startBeaconNodes w config)) ! i)))"
proof -
  from assms(1,2,3) run_commands_le [of w config] have i: "i < 800" and j: "j < 800"
    by simp_all
  have inj: "inj (\<lambda>p. Some (decimal p))"
    by (rule injI) (simp add: decimal_inj)
  have "set (map (\<lambda>p. Some (decimal p)) (node_ports i))
          \<inter> set (map (\<lambda>p. Some (decimal p)) (node_ports j))
        = (\<lambda>p. Some (decimal p)) ` (set (node_ports i) \<inter> set (node_ports j))"
    using inj by (simp add: image_Int)
  also have "\<dots> = {}" using node_ports_disjoint [OF i j assms(4)] by simp
  finally have "set (map (\<lambda>p. Some (decimal p)) (node_ports i))
          \<inter> set (map (\<lambda>p. Some (decimal p)) (node_ports j)) = {}" .
  moreover have "distinct (map (\<lambda>p. Some (decimal p)) (node_ports i))"
    using inj_on_subset [OF inj subset_UNIV] node_ports_distinct [of i]
    by (simp add: distinct_map)
  moreover have "None \<notin> set (map (\<lambda>p. Some (decimal p)) (node_ports i))"
    by auto
  ultimately show ?thesis
    by (simp only: run_port_values [OF assms(2)] run_port_values [OF assms(3)] simp_thms)
qed

theorem ports_distinct_upto_800_witness:
  "numBeaconNodes (test_config 3) \<le> 800
   \<and> 0 < length (commands (fst (startBeaconNodes local_world (test_config 3))))
   \<and> 2 < length (commands (fst (startBeaconNodes local_world (test_config 3))))
   \<and> set (port_values (snd (commands (fst (startBeaconNodes local_world (test_config 3))) ! 0)))
       \<inter> set (port_values (snd (commands (fst (startBeaconNodes local_world (test_config 3))) ! 2)))
     = {}"
proof -
  have h1: "numBeaconNodes (test_config 3) \<le> 800" by (simp add: test_config_def)
  have h2: "0 < length (commands (fst (startBeaconNodes local_world (test_config 3))))"
    and h3: "2 < length (commands (fst (startBeaconNodes local_world (test_config 3))))"
    by (simp_all add: local_run_3)
  have h4: "(0::nat) \<noteq> 2" by simp
  from ports_distinct_upto_800 [OF h1 h2 h3 h4] h1 h2 h3 show ?thesis by simp
qed

text \<open>
  Claim C4 as stated, for every run size, fails: in the run of 801 nodes that all start,
  the gateway port of node 800 is the RPC port of node 0, in the commands and in the
  records of the registry.
\<close>

theorem ports_distinct_counterexample:
  "snd (snd (startBeaconNodes local_world (test_config 801))) = None
   \<and> length (fst (snd (startBeaconNodes local_world (test_config 801)))) = 801
   \<and> port_values (snd (commands (fst (startBeaconNodes local_world (test_config 801))) ! 0)) ! 0
     = Some ''4000''
   \<and> port_values (snd (commands (fst (startBeaconNodes local_world (test_config 801))) ! 800)) ! 4
     = Some ''4000''
   \<and> rpcPort (fst (snd (startBeaconNodes local_world (test_config 801))) ! 0) = 4000
   \<and> grpcPort (fst (snd (startBeaconNodes local_world (test_config 801))) ! 800) = 4000"
proof -
  have n: "numBeaconNodes (test_config 801) = 801" by (simp add: test_config_def)
  have "\<forall>i<numBeaconNodes (test_config 801). node_ok (local_world i)"
    by (simp add: local_world_ok)
  from run_all_ok [OF this]
  have none: "snd (snd (startBeaconNodes local_world (test_config 801))) = None"
    and reg: "fst (snd (startBeaconNodes local_world (test_config 801)))
              = registry_upto local_world (test_config 801) 801"
    and len: "length (commands (fst (startBeaconNodes local_world (test_config 801)))) = 801"
    by (simp_all add: run_outcome_def n)
  have c0: "0 < length (commands (fst (startBeaconNodes local_world (test_config 801))))"
    and c800: "800 < length (commands (fst (startBeaconNodes local_world (test_config 801))))"
    by (simp_all add: len)
  have d: "decimal 4000 = ''4000''" by (simp add: decimal.simps digit_def)
  have p0: "port_values (snd (commands (fst (startBeaconNodes local_world (test_config 801))) ! 0)) ! 0
     = Some ''4000''"
    by (simp add: run_port_values [OF c0] node_ports_def d)
  have p800: "port_values (snd (commands (fst (startBeaconNodes local_world (test_config 801))) ! 800)) ! 4
     = Some ''4000''"
    by (simp add: run_port_values [OF c800] node_ports_def d)
  have r0: "rpcPort (fst (snd (startBeaconNodes local_world (test_config 801))) ! 0) = 4000"
    by (simp add: reg registry_upto_def node_record_def)
  have r800: "grpcPort (fst (snd (startBeaconNodes local_world (test_config 801))) ! 800) = 4000"
    by (simp add: reg registry_upto_def node_record_def)
  from none reg p0 p800 r0 r800 show ?thesis by simp
qed

text \<open>
  Claim C7. The ports are computed from the index alone: the command of node \<open>i\<close> of any
  run, like the argument list built for a registry of \<open>i\<close> records, gives the flags
  \<open>--rpc-port\<close>, \<open>--p2p-udp-port\<close>, \<open>--p2p-tcp-port\<close>, \<open>--monitoring-port\<close> and
  \<open>--grpc-gateway-port\<close> the values \<open>4000 + i\<close>, \<open>12000 + i\<close>, \<open>13000 + i\<close>, \<open>8080 + i\<close>
  and \<open>3200 + i\<close>, in decimal. The run of three nodes has the ports 4000, 4001, 4002 for
  RPC, 12000, 12001, 12002 for UDP and 13000, 13001, 13002 for TCP.
\<close>

theorem port_derivation:
  "(i < length (commands (fst (startBeaconNodes w config))) \<longrightarrow>
      port_values (snd (commands (fst (startBeaconNodes w config)) ! i))
        = [Some (decimal (4000 + i)), Some (decimal (12000 + i)), Some (decimal (13000 + i)),
           Some (decimal (8080 + i)), Some (decimal (3200 + i))])
   \<and> port_values (node_args config beaconNodes)
       = [Some (decimal (4000 + length beaconNodes)), Some (decimal (12000 + length beaconNodes)),
          Some (decimal (13000 + length beaconNodes)), Some (decimal (8080 + length beaconNodes)),
          Some (decimal (3200 + length beaconNodes))]
   \<and> map (\<lambda>c. port_values (snd c)) (commands (fst (startBeaconNodes local_world (test_config 3))))
       = [[Some ''4000'', Some ''12000'', Some ''13000'', Some ''8080'', Some ''3200''],
          [Some ''4001'', Some ''12001'', Some ''13001'', Some ''8081'', Some ''3201''],
          [Some ''4002'', Some ''12002'', Some ''13002'', Some ''8082'', Some ''3202'']]"
proof (intro conjI impI)
  assume "i < length (commands (fst (startBeaconNodes w config)))"
  then show "port_values (snd (commands (fst (startBeaconNodes w config)) ! i))
        = [Some (decimal (4000 + i)), Some (decimal (12000 + i)), Some (decimal (13000 + i)),
           Some (decimal (8080 + i)), Some (decimal (3200 + i))]"
    by (simp add: run_port_values node_ports_def)
next
  show "port_values (node_args config beaconNodes)
       = [Some (decimal (4000 + length beaconNodes)), Some (decimal (12000 + length beaconNodes)),
          Some (decimal (13000 + length beaconNodes)), Some (decimal (8080 + length beaconNodes)),
          Some (decimal (3200 + length beaconNodes))]"
    by (simp add: port_values_node_args node_ports_def)
next
  let ?cs = "commands (fst (startBeaconNodes local_world (test_config 3)))"
  have len: "length ?cs = 3" by (rule local_run_3)
  have "map (\<lambda>c. port_values (snd c)) ?cs
        = map (\<lambda>i. port_values (snd (?cs ! i))) [0..<length ?cs]"
    by (rule nth_equalityI) simp_all
  also have "\<dots> = map (\<lambda>i. map (\<lambda>p. Some (decimal p)) (node_ports i)) [0..<length ?cs]"
    by (rule map_cong) (simp_all add: run_port_values)
  also have "\<dots> = [[Some ''4000'', Some ''12000'', Some ''13000'', Some ''8080'', Some ''3200''],
          [Some ''4001'', Some ''12001'', Some ''13001'', Some ''8081'', Some ''3201''],
          [Some ''4002'', Some ''12002'', Some ''13002'', Some ''8082'', Some ''3202'']]"
    by (simp add: len upt_rec node_ports_def decimal.simps digit_def)
  finally show "map (\<lambda>c. port_values (snd c)) ?cs
       = [[Some ''4000'', Some ''12000'', Some ''13000'', Some ''8080'', Some ''3200''],
          [Some ''4001'', Some ''12001'', Some ''13001'', Some ''8081'', Some ''3201''],
          [Some ''4002'', Some ''12002'', Some ''13002'', Some ''8082'', Some ''3202'']]" .
qed

theorem port_derivation_witness:
  "1 < length (commands (fst (startBeaconNodes local_world (test_config 3))))
   \<and> port_values (snd (commands (fst (startBeaconNodes local_world (test_config 3))) ! 1))
     = [Some ''4001'', Some ''12001'', Some ''13001'', Some ''8081'', Some ''3201'']"
proof -
  have h: "1 < length (commands (fst (startBeaconNodes local_world (test_config 3))))"
    by (simp add: local_run_3)
  from port_derivation [of 1 local_world "test_config 3" "[]"] h show ?thesis
    by (simp add: decimal.simps digit_def)
qed

text \<open>
  Claim C10. When the first prefix \<open>"Node started p2p server" multiAddr="\<close> of the text is
  followed at once by a quote, \<open>getMultiAddrFromLogFile\<close> returns the empty string without
  error, so a record of the registry can hold an empty address, as in the run of one node
  that logs such a line. Whatever follows the first prefix, further prefixes included,
  the address is the text between the first prefix and the next quote.
\<close>

theorem getMultiAddrFromLogFile_empty_and_first:
  "((\<forall>j<length pre. \<not> prefix searchText (drop j (pre @ searchText @ [dquote] @ rest)))
    \<longrightarrow> getMultiAddrFromLogFile (Inr (pre @ searchText @ [dquote] @ rest)) = Inr [])
   \<and> ((\<forall>j<length pre'. \<not> prefix searchText (drop j (pre' @ searchText @ tail)))
      \<and> dquote \<in> set tail
    \<longrightarrow> getMultiAddrFromLogFile (Inr (pre' @ searchText @ tail))
          = Inr (takeWhile (\<lambda>c. c \<noteq> dquote) tail))
   \<and> snd (snd (startBeaconNodes blank_world (test_config 1))) = None
   \<and> map multiAddr (fst (snd (startBeaconNodes blank_world (test_config 1)))) = [[]]"
proof (intro conjI impI)
  assume "\<forall>j<length pre. \<not> prefix searchText (drop j (pre @ searchText @ [dquote] @ rest))"
  from getMultiAddr_first [OF this]
  show "getMultiAddrFromLogFile (Inr (pre @ searchText @ [dquote] @ rest)) = Inr []"
    by simp
next
  assume "(\<forall>j<length pre'. \<not> prefix searchText (drop j (pre' @ searchText @ tail)))
      \<and> dquote \<in> set tail"
  then have first: "\<forall>j<length pre'. \<not> prefix searchText (drop j (pre' @ searchText @ tail))"
    and q: "dquote \<in> set tail" by blast+
  from getMultiAddr_first [OF first] q
  show "getMultiAddrFromLogFile (Inr (pre' @ searchText @ tail))
          = Inr (takeWhile (\<lambda>c. c \<noteq> dquote) tail)"
    by simp
next
  have ok: "\<forall>i<numBeaconNodes (test_config 1). node_ok (blank_world i)"
    by (simp add: blank_world_ok)
  from run_all_ok [OF ok]
  have none: "snd (snd (startBeaconNodes blank_world (test_config 1))) = None"
    and reg: "fst (snd (startBeaconNodes blank_world (test_config 1)))
              = registry_upto blank_world (test_config 1) 1"
    by (simp_all add: run_outcome_def test_config_def)
  show "snd (snd (startBeaconNodes blank_world (test_config 1))) = None" by (rule none)
  have "getMultiAddrFromLogFile (Inr (started_line [])) = Inr []"
    by (rule getMultiAddr_started_line) simp
  then show "map multiAddr (fst (snd (startBeaconNodes blank_world (test_config 1)))) = [[]]"
    unfolding reg by (simp add: registry_upto_def node_record_def blank_world_def ready_env_def)
qed

theorem getMultiAddrFromLogFile_empty_and_first_witness:
  "getMultiAddrFromLogFile (Inr (''level=info msg='' @ searchText @ [dquote] @ '' prefix=p2p''))
     = Inr []
   \<and> dquote \<in> set (''/ip4/10.0.0.1/tcp/1'' @ [dquote] @ '' msg='' @ searchText
                    @ ''/ip4/10.0.0.2/tcp/2'' @ [dquote])
   \<and> getMultiAddrFromLogFile
       (Inr (''level=info msg='' @ searchText
             @ (''/ip4/10.0.0.1/tcp/1'' @ [dquote] @ '' msg='' @ searchText
                @ ''/ip4/10.0.0.2/tcp/2'' @ [dquote])))
     = Inr ''/ip4/10.0.0.1/tcp/1''"
proof -
  have h1: "\<forall>j<length ''level=info msg=''. \<not> prefix searchText
      (drop j (''level=info msg='' @ searchText @ [dquote] @ '' prefix=p2p''))"
    by (rule no_earlier_prefix) (rule started_line_index)
  have h2: "\<forall>j<length ''level=info msg=''. \<not> prefix searchText
      (drop j (''level=info msg='' @ searchText
             @ (''/ip4/10.0.0.1/tcp/1'' @ [dquote] @ '' msg='' @ searchText
                @ ''/ip4/10.0.0.2/tcp/2'' @ [dquote])))"
    by (rule no_earlier_prefix) (rule started_line_index)
  have h3: "dquote \<in> set (''/ip4/10.0.0.1/tcp/1'' @ [dquote] @ '' msg='' @ searchText
                    @ ''/ip4/10.0.0.2/tcp/2'' @ [dquote])"
    by simp
  have t: "takeWhile (\<lambda>c. c \<noteq> dquote) (''/ip4/10.0.0.1/tcp/1'' @ [dquote] @ '' msg='' @ searchText
                    @ ''/ip4/10.0.0.2/tcp/2'' @ [dquote]) = ''/ip4/10.0.0.1/tcp/1''"
    by (simp add: dquote_def)
  from getMultiAddrFromLogFile_empty_and_first [of "''level=info msg=''" "'' prefix=p2p''"
      "''level=info msg=''" "''/ip4/10.0.0.1/tcp/1'' @ [dquote] @ '' msg='' @ searchText
                    @ ''/ip4/10.0.0.2/tcp/2'' @ [dquote]"] h1 h2 h3
  have "getMultiAddrFromLogFile (Inr (''level=info msg='' @ searchText @ [dquote] @ '' prefix=p2p''))
     = Inr []"
    and "getMultiAddrFromLogFile
       (Inr (''level=info msg='' @ searchText
             @ (''/ip4/10.0.0.1/tcp/1'' @ [dquote] @ '' msg='' @ searchText
                @ ''/ip4/10.0.0.2/tcp/2'' @ [dquote])))
     = Inr (takeWhile (\<lambda>c. c \<noteq> dquote) (''/ip4/10.0.0.1/tcp/1'' @ [dquote] @ '' msg='' @ searchText
                    @ ''/ip4/10.0.0.2/tcp/2'' @ [dquote]))"
    by blast+
  with h3 t show ?thesis by (simp only: simp_thms)
qed

end
